theory Spec2Isabelle
  imports Complex_Main
begin

section \<open>Data model (types.ts)\<close>

text \<open>
  JavaScript numbers are modelled as real numbers: the rounding of doubles and of the
  \<^verbatim>\<open>Float32Array\<close> buffers is not part of the model. Array indices and counters are
  natural numbers.
\<close>

datatype AppStage =
  TREE | COUNTDOWN_5 | COUNTDOWN_4 | COUNTDOWN_3 | COUNTDOWN_2 | COUNTDOWN_1 | HAPPY_NEW_YEAR

text \<open>The string value of each member of the enum \<^verbatim>\<open>AppStage\<close>.\<close>

fun stageValue :: "AppStage \<Rightarrow> string" where
  "stageValue TREE = ''TREE''"
| "stageValue COUNTDOWN_5 = ''5''"
| "stageValue COUNTDOWN_4 = ''4''"
| "stageValue COUNTDOWN_3 = ''3''"
| "stageValue COUNTDOWN_2 = ''2''"
| "stageValue COUNTDOWN_1 = ''1''"
| "stageValue HAPPY_NEW_YEAR = ''HAPPY_NEW_YEAR''"

datatype HandState = UNKNOWN | OPEN | CLOSED

text \<open>
  \<^verbatim>\<open>ParticlePoint\<close>: the fields \<^verbatim>\<open>x\<close>, \<^verbatim>\<open>y\<close>, \<^verbatim>\<open>z\<close>, \<^verbatim>\<open>color\<close> carry the
  prefix \<open>pt_\<close>, so that the selectors do not capture the variable names of the theorems.
\<close>

type_synonym rgb = "real \<times> real \<times> real"

record ParticlePoint =
  pt_x :: real
  pt_y :: real
  pt_z :: real
  pt_color :: rgb

section \<open>The stage controller (App component)\<close>

definition STAGE_ORDER :: "AppStage list" where
  "STAGE_ORDER =
     [TREE, COUNTDOWN_5, COUNTDOWN_4, COUNTDOWN_3, COUNTDOWN_2, COUNTDOWN_1, HAPPY_NEW_YEAR]"

text \<open>The three \<^verbatim>\<open>useState\<close> cells of \<^verbatim>\<open>App\<close> that the stage logic reads and writes.\<close>

record AppState =
  currentStageIndex :: nat
  handState :: HandState
  prevHandState :: HandState

definition initialApp :: AppState where
  "initialApp = \<lparr>currentStageIndex = 0, handState = UNKNOWN, prevHandState = UNKNOWN\<rparr>"

text \<open>
  \<^verbatim>\<open>setCurrentStageIndex((prev) => Math.min(prev + 1, STAGE_ORDER.length - 1))\<close>
\<close>

definition handleNextStage :: "AppState \<Rightarrow> AppState" where
  "handleNextStage st =
     st\<lparr>currentStageIndex := min (currentStageIndex st + 1) (length STAGE_ORDER - 1)\<rparr>"

definition handleReset :: "AppState \<Rightarrow> AppState" where
  "handleReset st =
     st\<lparr>currentStageIndex := 0, handState := UNKNOWN, prevHandState := UNKNOWN\<rparr>"

text \<open>
  The body of the effect with dependency list \<^verbatim>\<open>[handState]\<close>: a falling edge calls
  \<^verbatim>\<open>handleNextStage\<close>, and \<^verbatim>\<open>setPrevHandState(handState)\<close> runs in every case.
\<close>

definition gestureEffect :: "AppState \<Rightarrow> AppState" where
  "gestureEffect st =
     (let st' = (if prevHandState st = OPEN \<and> handState st = CLOSED
                 then handleNextStage st else st)
      in st'\<lparr>prevHandState := handState st\<rparr>)"

text \<open>
  The callback that \<^verbatim>\<open>App\<close> hands to the classifier service is
  \<^verbatim>\<open>(state) => { setHandState(state); }\<close>: it replaces the pending value of the cell
  \<^verbatim>\<open>handState\<close> and does nothing else. The edge test is not part of it.
\<close>

definition onHandStateChange :: "HandState \<Rightarrow> HandState \<Rightarrow> HandState" where
  "onHandStateChange state pending = state"

text \<open>
  A render turn. \<open>calls\<close> are the notifications that arrive between two renders, in
  order; \<open>st\<close> holds the cells as the last render left them. React renders with the
  pending value, which is the state of the last call, and runs the effect on
  \<^verbatim>\<open>[handState]\<close> once, and only when this value differs from the one of the previous
  render. The updates that the effect makes cause one more render, in which
  \<^verbatim>\<open>handState\<close> is unchanged and the effect does not run.

  Which notifications share a turn is decided outside these files. The service calls
  the callback once for every function call of a message, in one synchronous loop; a
  root that batches the updates of a synchronous turn (React 18 and later) renders once
  for all of them, and a root that renders after every update has one call per turn.
\<close>

definition renderTurn :: "HandState list \<Rightarrow> AppState \<Rightarrow> AppState" where
  "renderTurn calls st =
     (let s = foldl (\<lambda>pending state. onHandStateChange state pending) (handState st) calls
      in if s = handState st then st else gestureEffect (st\<lparr>handState := s\<rparr>))"

text \<open>A sequence of render turns.\<close>

fun renderTurns :: "HandState list list \<Rightarrow> AppState \<Rightarrow> AppState" where
  "renderTurns [] st = st"
| "renderTurns (calls # rest) st = renderTurns rest (renderTurn calls st)"

text \<open>
  The number of falling edges (\<open>OPEN\<close> directly followed by \<open>CLOSED\<close>) in a sequence of
  gesture states that follows the state \<open>prev\<close>. This counts what the specification
  calls an advance.
\<close>

fun fallingEdges :: "HandState \<Rightarrow> HandState list \<Rightarrow> nat" where
  "fallingEdges prev [] = 0"
| "fallingEdges prev (s # ss) =
     (if prev = OPEN \<and> s = CLOSED then 1 else 0) + fallingEdges s ss"

text \<open>
  The gesture states that the renders of a sequence of turns see, one per turn: the
  last call of the turn, or the state \<open>h\<close> of the render before when the turn is empty.
\<close>

fun renderedStates :: "HandState \<Rightarrow> HandState list list \<Rightarrow> HandState list" where
  "renderedStates h [] = []"
| "renderedStates h (calls # rest) =
     last (h # calls) # renderedStates (last (h # calls)) rest"

text \<open>The stage shown: \<^verbatim>\<open>STAGE_ORDER[currentStageIndex]\<close>.\<close>

definition currentStage :: "AppState \<Rightarrow> AppStage option" where
  "currentStage st =
     (if currentStageIndex st < length STAGE_ORDER
      then Some (STAGE_ORDER ! currentStageIndex st) else None)"

section \<open>The shape generator (utils/shapeGenerator.ts)\<close>

definition PARTICLE_COUNT :: nat where "PARTICLE_COUNT = 4000"
definition CANVAS_WIDTH :: nat where "CANVAS_WIDTH = 200"
definition CANVAS_HEIGHT :: nat where "CANVAS_HEIGHT = 100"

definition createPoint :: "real \<Rightarrow> real \<Rightarrow> real \<Rightarrow> rgb \<Rightarrow> ParticlePoint" where
  "createPoint x y z c = \<lparr>pt_x = x, pt_y = y, pt_z = z, pt_color = c\<rparr>"

text \<open>
  What the generators take from the browser. \<open>random\<close> is the sequence of values that the
  successive calls of \<^verbatim>\<open>Math.random()\<close> return, each in \<open>[0, 1)\<close>; a generator starts
  reading it at a cursor and returns the cursor behind its last draw. \<open>hasContext\<close> tells
  whether \<^verbatim>\<open>canvas.getContext('2d')\<close> is non-null, and \<open>imageData fontSize text\<close> is the
  RGBA byte array that \<^verbatim>\<open>getImageData\<close> returns once \<open>text\<close> (as UTF-16 code units) is
  drawn in white, bold Arial of \<open>fontSize\<close> px, centred on the black 200 x 100 canvas;
  the byte at index \<open>i\<close> is \<open>imageData fontSize text i\<close>.
\<close>

record browser =
  random :: "nat \<Rightarrow> real"
  hasContext :: bool
  imageData :: "nat \<Rightarrow> nat list \<Rightarrow> nat \<Rightarrow> nat"

subsection \<open>Tree shape\<close>

definition GREEN :: rgb where "GREEN = (0.1, 0.8, 0.2)"
definition RED :: rgb where "RED = (1, 0.1, 0.1)"
definition GOLD :: rgb where "GOLD = (1, 0.8, 0.1)"

definition treeAngle :: "nat \<Rightarrow> real" where
  "treeAngle i = real i * 0.1"

definition treeHeight :: "nat \<Rightarrow> real" where
  "treeHeight i = (real i / real PARTICLE_COUNT) * 20 - 10"

text \<open>The radius, computed from the height: \<^verbatim>\<open>((20 - (height + 10)) / 20) * 8\<close>.\<close>

definition treeRadius :: "real \<Rightarrow> real" where
  "treeRadius height = ((20 - (height + 10)) / 20) * 8"

text \<open>
  The ornament colouring, reading \<^verbatim>\<open>Math.random()\<close> at cursor \<open>k\<close>. The second call is
  made only when the first test fails (\<^verbatim>\<open>else if\<close>). Returns the colour and the cursor.
\<close>

definition treeColor :: "(nat \<Rightarrow> real) \<Rightarrow> nat \<Rightarrow> rgb \<times> nat" where
  "treeColor rnd k =
     (if rnd k > 0.95 then (RED, k + 1)
      else if rnd (k + 1) > 0.95 then (GOLD, k + 2)
      else (GREEN, k + 2))"

definition treePoint :: "nat \<Rightarrow> rgb \<Rightarrow> ParticlePoint" where
  "treePoint i c =
     (let angle = treeAngle i;
          height = treeHeight i;
          radius = treeRadius height
      in createPoint (cos angle * radius) height (sin angle * radius) c)"

text \<open>
  The loop \<^verbatim>\<open>for (let i = 0; i < PARTICLE_COUNT; i++)\<close>: \<open>treeLoop rnd k0 n\<close> is the array
  \<^verbatim>\<open>points\<close> and the cursor of the random sequence after the first \<open>n\<close> iterations.
\<close>

primrec treeLoop :: "(nat \<Rightarrow> real) \<Rightarrow> nat \<Rightarrow> nat \<Rightarrow> ParticlePoint list \<times> nat" where
  "treeLoop rnd k0 0 = ([], k0)"
| "treeLoop rnd k0 (Suc i) =
     (let (points, k) = treeLoop rnd k0 i;
          (c, k') = treeColor rnd k
      in (points @ [treePoint i c], k'))"

definition generateTreePoints :: "browser \<Rightarrow> nat \<Rightarrow> ParticlePoint list \<times> nat" where
  "generateTreePoints env k0 = treeLoop (random env) k0 PARTICLE_COUNT"

subsection \<open>Text shape\<close>

record pixel =
  pixel_x :: nat
  pixel_y :: nat

text \<open>The values of a loop variable in \<^verbatim>\<open>for (let v = lo; v < hi; v += 2)\<close>.\<close>

function stride2 :: "nat \<Rightarrow> nat \<Rightarrow> nat list" where
  "stride2 lo hi = (if lo < hi then lo # stride2 (lo + 2) hi else [])"
  by pat_completeness auto
termination
  by (relation "measure (\<lambda>(lo, hi). hi - lo)") auto

declare stride2.simps [simp del]

text \<open>
  The scan for white pixels: every second row, and in it every second column, in that
  order; a pixel is kept when its red byte exceeds 128.
\<close>

definition scanRow :: "(nat \<Rightarrow> nat) \<Rightarrow> nat \<Rightarrow> pixel list" where
  "scanRow data y =
     concat (map (\<lambda>x. let index = (y * CANVAS_WIDTH + x) * 4
                       in if data index > 128 then [\<lparr>pixel_x = x, pixel_y = y\<rparr>] else [])
                 (stride2 0 CANVAS_WIDTH))"

definition scanPixels :: "(nat \<Rightarrow> nat) \<Rightarrow> pixel list" where
  "scanPixels data = concat (map (scanRow data) (stride2 0 CANVAS_HEIGHT))"

definition textPoint :: "pixel \<Rightarrow> real \<Rightarrow> rgb \<Rightarrow> ParticlePoint" where
  "textPoint p r colorBase =
     (let x = (real (pixel_x p) - real CANVAS_WIDTH / 2) * 0.2;
          y = - (real (pixel_y p) - real CANVAS_HEIGHT / 2) * 0.2;
          z = (r - 0.5) * 2
      in createPoint x y z colorBase)"

text \<open>
  The mapping loop, entered only with a non-empty \<open>validPixels\<close>: the state after the
  first \<open>n\<close> iterations. Iteration \<open>i\<close> makes one draw.
\<close>

primrec textLoop ::
  "(nat \<Rightarrow> real) \<Rightarrow> nat \<Rightarrow> pixel list \<Rightarrow> rgb \<Rightarrow> nat \<Rightarrow> ParticlePoint list \<times> nat" where
  "textLoop rnd k0 validPixels colorBase 0 = ([], k0)"
| "textLoop rnd k0 validPixels colorBase (Suc i) =
     (let (points, k) = textLoop rnd k0 validPixels colorBase i;
          p = validPixels ! (i mod length validPixels)
      in (points @ [textPoint p (rnd k) colorBase], k + 1))"

definition generateTextPoints ::
  "browser \<Rightarrow> nat list \<Rightarrow> rgb \<Rightarrow> nat \<Rightarrow> ParticlePoint list \<times> nat" where
  "generateTextPoints env text colorBase k0 =
     (if \<not> hasContext env then ([], k0)
      else
        let fontSize = (if length text > 2 then 30 else 80);
            data = imageData env fontSize text;
            validPixels = scanPixels data
        in if length validPixels = 0 then ([], k0)
           else textLoop (random env) k0 validPixels colorBase PARTICLE_COUNT)"

subsection \<open>Dispatch\<close>

text \<open>A string of the source as UTF-16 code units.\<close>

definition utf16 :: "string \<Rightarrow> nat list" where
  "utf16 s = map of_char s"

text \<open>The phrase of the last stage, U+65B0 U+5E74 U+5FEB U+4E50.\<close>

definition HAPPY_TEXT :: "nat list" where
  "HAPPY_TEXT = [0x65B0, 0x5E74, 0x5FEB, 0x4E50]"

definition getPointsForStage :: "browser \<Rightarrow> string \<Rightarrow> nat \<Rightarrow> ParticlePoint list \<times> nat" where
  "getPointsForStage env stage k0 =
     (if stage = ''TREE'' then generateTreePoints env k0
      else if stage \<in> set [''5'', ''4'', ''3'', ''2'', ''1'']
        then generateTextPoints env (utf16 stage) (0.4, 0.6, 1.0) k0
      else if stage = ''HAPPY_NEW_YEAR'' then generateTextPoints env HAPPY_TEXT (1, 0.8, 0.2) k0
      else generateTreePoints env k0)"

section \<open>The particle scene (components/ParticleScene)\<close>

definition particleCount :: nat where "particleCount = 4000"
definition lerpFactor :: real where "lerpFactor = 0.08"

subsection \<open>The target buffers and the effect that replaces them\<close>

text \<open>
  The typed arrays live in a store: an address names one \<^verbatim>\<open>Float32Array\<close> object, and the
  two refs \<^verbatim>\<open>targetPositionsRef\<close> and \<^verbatim>\<open>targetColorsRef\<close> hold an address or
  \<^verbatim>\<open>null\<close>. \<open>nextAddr\<close> is the address that the next allocation returns.
\<close>

type_synonym addr = nat

record store =
  heap :: "addr \<Rightarrow> real list option"
  nextAddr :: addr
  targetPositionsRef :: "addr option"
  targetColorsRef :: "addr option"

text \<open>\<^verbatim>\<open>new Float32Array(n)\<close>: a new object of \<open>n\<close> zeros.\<close>

definition newFloat32Array :: "nat \<Rightarrow> store \<Rightarrow> addr \<times> store" where
  "newFloat32Array n st =
     (nextAddr st,
      st\<lparr>heap := (heap st)(nextAddr st \<mapsto> replicate n 0), nextAddr := nextAddr st + 1\<rparr>)"

text \<open>
  \<^verbatim>\<open>a[i] = v\<close> on a typed array: a write beyond the length is ignored, as
  \<open>xs[i := v]\<close> is.
\<close>

definition setElem :: "store \<Rightarrow> addr \<times> nat \<times> real \<Rightarrow> store" where
  "setElem st w =
     (case w of (a, i, v) \<Rightarrow>
        (case heap st a of
           None \<Rightarrow> st
         | Some xs \<Rightarrow> st\<lparr>heap := (heap st)(a \<mapsto> xs[i := v])\<rparr>))"

text \<open>A run of element writes, in program order.\<close>

definition execWrites :: "(addr \<times> nat \<times> real) list \<Rightarrow> store \<Rightarrow> store" where
  "execWrites ws st = foldl setElem st ws"

text \<open>The six assignments of the \<^verbatim>\<open>forEach\<close> callback for point \<open>p\<close> at index \<open>i\<close>.\<close>

definition pointWrites :: "addr \<Rightarrow> addr \<Rightarrow> nat \<Rightarrow> ParticlePoint \<Rightarrow> (addr \<times> nat \<times> real) list" where
  "pointWrites newTargetPositions newTargetColors i p =
     (if i < particleCount then
        [(newTargetPositions, i * 3, pt_x p),
         (newTargetPositions, i * 3 + 1, pt_y p),
         (newTargetPositions, i * 3 + 2, pt_z p),
         (newTargetColors, i * 3, fst (pt_color p)),
         (newTargetColors, i * 3 + 1, fst (snd (pt_color p))),
         (newTargetColors, i * 3 + 2, snd (snd (pt_color p)))]
      else [])"

text \<open>\<^verbatim>\<open>points.forEach((p, i) => ...)\<close>, from index \<open>i\<close> on.\<close>

fun forEachWrites ::
  "addr \<Rightarrow> addr \<Rightarrow> nat \<Rightarrow> ParticlePoint list \<Rightarrow> (addr \<times> nat \<times> real) list" where
  "forEachWrites pa ca i [] = []"
| "forEachWrites pa ca i (p # ps) = pointWrites pa ca i p @ forEachWrites pa ca (Suc i) ps"

text \<open>The six assignments of one iteration of the padding loop.\<close>

definition zeroWrites :: "addr \<Rightarrow> addr \<Rightarrow> nat \<Rightarrow> (addr \<times> nat \<times> real) list" where
  "zeroWrites newTargetPositions newTargetColors i =
     [(newTargetPositions, i * 3, 0),
      (newTargetPositions, i * 3 + 1, 0),
      (newTargetPositions, i * 3 + 2, 0),
      (newTargetColors, i * 3, 0),
      (newTargetColors, i * 3 + 1, 0),
      (newTargetColors, i * 3 + 2, 0)]"

text \<open>\<^verbatim>\<open>for (let i = points.length; i < particleCount; i++)\<close>\<close>

definition padWrites :: "addr \<Rightarrow> addr \<Rightarrow> nat \<Rightarrow> (addr \<times> nat \<times> real) list" where
  "padWrites pa ca n = concat (map (zeroWrites pa ca) [n..<particleCount])"

definition stageWrites ::
  "addr \<Rightarrow> addr \<Rightarrow> ParticlePoint list \<Rightarrow> (addr \<times> nat \<times> real) list" where
  "stageWrites pa ca points = forEachWrites pa ca 0 points @ padWrites pa ca (length points)"

text \<open>
  The effect on \<^verbatim>\<open>[stage]\<close> once \<open>points\<close> is computed: allocate both arrays
  (\<open>allocTargets\<close>), fill them, then assign the two refs.
\<close>

definition allocTargets :: "store \<Rightarrow> addr \<times> addr \<times> store" where
  "allocTargets st =
     (let (newTargetPositions, st1) = newFloat32Array (particleCount * 3) st;
          (newTargetColors, st2) = newFloat32Array (particleCount * 3) st1
      in (newTargetPositions, newTargetColors, st2))"

definition installTargets :: "ParticlePoint list \<Rightarrow> store \<Rightarrow> store" where
  "installTargets points st =
     (let (newTargetPositions, newTargetColors, st2) = allocTargets st;
          st3 = execWrites (stageWrites newTargetPositions newTargetColors points) st2;
          st4 = st3\<lparr>targetPositionsRef := Some newTargetPositions\<rparr>
      in st4\<lparr>targetColorsRef := Some newTargetColors\<rparr>)"

text \<open>
  The store in the middle of the effect: after the two allocations and the first \<open>m\<close>
  element writes, before any ref is assigned.
\<close>

definition stageEffectPrefix :: "nat \<Rightarrow> ParticlePoint list \<Rightarrow> store \<Rightarrow> store" where
  "stageEffectPrefix m points st =
     (let (newTargetPositions, newTargetColors, st2) = allocTargets st
      in execWrites (take m (stageWrites newTargetPositions newTargetColors points)) st2)"

definition stageEffect :: "browser \<Rightarrow> string \<Rightarrow> nat \<Rightarrow> store \<Rightarrow> store \<times> nat" where
  "stageEffect env stage k0 st =
     (let (points, k) = getPointsForStage env stage k0
      in (installTargets points st, k))"

text \<open>The array a ref points to, if any.\<close>

definition deref :: "store \<Rightarrow> addr option \<Rightarrow> real list option" where
  "deref st r = (case r of None \<Rightarrow> None | Some a \<Rightarrow> heap st a)"

subsection \<open>The per-frame update\<close>

text \<open>
  The update \<^verbatim>\<open>live += (target - live) * lerpFactor\<close> of one channel over the real
  numbers, and the frame built on it. The rounding of the machine is left out in this
  subsection; the next one has the same update and the same frame with it.
\<close>

definition lerpStep :: "real \<Rightarrow> real \<Rightarrow> real" where
  "lerpStep live target = live + (target - live) * lerpFactor"

text \<open>
  The body of the particle loop of \<^verbatim>\<open>animate\<close> for particle \<open>i\<close>, on the live buffers
  \<open>(positions, colors)\<close>.
\<close>

definition animateParticle ::
  "real \<Rightarrow> real list \<Rightarrow> real list \<Rightarrow> real list \<Rightarrow> nat \<Rightarrow> real list \<times> real list
     \<Rightarrow> real list \<times> real list" where
  "animateParticle time randoms targets targetCols i buf =
     (let (positions, colors) = buf;
          i3 = i * 3;
          floatOffset = sin (time + randoms ! i * 10) * 0.2;
          floatOffsetX = cos (time * 0.5 + randoms ! i * 10) * 0.1;
          targetX = targets ! i3 + floatOffsetX;
          targetY = targets ! (i3 + 1) + floatOffset;
          targetZ = targets ! (i3 + 2);
          positions = positions[i3 := lerpStep (positions ! i3) targetX];
          positions = positions[i3 + 1 := lerpStep (positions ! (i3 + 1)) targetY];
          positions = positions[i3 + 2 := lerpStep (positions ! (i3 + 2)) targetZ];
          colors = colors[i3 := lerpStep (colors ! i3) (targetCols ! i3)];
          colors = colors[i3 + 1 := lerpStep (colors ! (i3 + 1)) (targetCols ! (i3 + 1))];
          colors = colors[i3 + 2 := lerpStep (colors ! (i3 + 2)) (targetCols ! (i3 + 2))]
      in (positions, colors))"

text \<open>The live buffers after the first \<open>n\<close> iterations of the particle loop.\<close>

primrec animateLoop ::
  "real \<Rightarrow> real list \<Rightarrow> real list \<Rightarrow> real list \<Rightarrow> real list \<times> real list \<Rightarrow> nat
     \<Rightarrow> real list \<times> real list" where
  "animateLoop time randoms targets targetCols buf 0 = buf"
| "animateLoop time randoms targets targetCols buf (Suc i) =
     animateParticle time randoms targets targetCols i
       (animateLoop time randoms targets targetCols buf i)"

text \<open>
  One call of \<^verbatim>\<open>animate\<close> at \<open>time\<close> seconds: nothing moves while either target ref is
  \<^verbatim>\<open>null\<close>. (\<^verbatim>\<open>particlesRef.current\<close> is set before the first call.)
\<close>

definition animate ::
  "real \<Rightarrow> real list \<Rightarrow> store \<Rightarrow> real list \<times> real list \<Rightarrow> real list \<times> real list" where
  "animate time randoms st buf =
     (case (deref st (targetPositionsRef st), deref st (targetColorsRef st)) of
        (Some targets, Some targetCols) \<Rightarrow>
          animateLoop time randoms targets targetCols buf particleCount
      | _ \<Rightarrow> buf)"

text \<open>
  The live buffers after \<open>n\<close> frames while the store stays as it is; frame \<open>m\<close> runs at
  \<open>clock m\<close> seconds.
\<close>

primrec animateFrames ::
  "(nat \<Rightarrow> real) \<Rightarrow> real list \<Rightarrow> store \<Rightarrow> real list \<times> real list \<Rightarrow> nat
     \<Rightarrow> real list \<times> real list" where
  "animateFrames clock randoms st buf 0 = buf"
| "animateFrames clock randoms st buf (Suc n) =
     animate (clock n) randoms st (animateFrames clock randoms st buf n)"

subsection \<open>The per-frame update with the rounding of the machine\<close>

text \<open>
  The elements of a \<^verbatim>\<open>Float32Array\<close> are binary32 numbers and the arithmetic of the
  script is binary64: reading an element is exact, every operation rounds its exact
  result to binary64, and the assignment to an element rounds to binary32, each time to
  the nearest number of the format, a tie going to the one with the even significand.

  \<open>roundEven x\<close> is the integer nearest to \<open>x\<close>, ties to even. \<open>binade x\<close> is the
  exponent \<open>e\<close> with \<open>2 ^ e \<le> \<bar>x\<bar> < 2 ^ (e + 1)\<close>. In the format with \<open>p\<close> significant
  bits and least normal exponent \<open>emin\<close>, \<open>ulpAt p emin x\<close> is the distance of
  neighbouring numbers around \<open>x\<close> (below \<open>2 ^ emin\<close> the subnormal numbers have the
  distance of the least binade), and \<open>roundFloat p emin x\<close> is the number nearest to
  \<open>x\<close>. The exponent has no upper limit here: the overflow to \<^verbatim>\<open>Infinity\<close>, and
  \<^verbatim>\<open>NaN\<close>, are not part of the model, which is the arithmetic of the script as long as
  the values stay below \<open>2 ^ 128\<close> in absolute value.
\<close>

definition roundEven :: "real \<Rightarrow> int" where
  "roundEven x =
     (let f = \<lfloor>x\<rfloor>; r = x - of_int f
      in if r < 1 / 2 then f else if 1 / 2 < r then f + 1 else if even f then f else f + 1)"

definition binade :: "real \<Rightarrow> int" where
  "binade x = \<lfloor>log 2 \<bar>x\<bar>\<rfloor>"

definition ulpAt :: "nat \<Rightarrow> int \<Rightarrow> real \<Rightarrow> real" where
  "ulpAt p emin x = 2 powi (max (binade x) emin - (int p - 1))"

definition roundFloat :: "nat \<Rightarrow> int \<Rightarrow> real \<Rightarrow> real" where
  "roundFloat p emin x =
     (if x = 0 then 0 else of_int (roundEven (x / ulpAt p emin x)) * ulpAt p emin x)"

text \<open>
  \<open>fround\<close> rounds to binary32 (24 significant bits, least normal exponent -126), as
  the assignment to an element of a \<^verbatim>\<open>Float32Array\<close> and \<^verbatim>\<open>Math.fround\<close> do;
  \<open>dround\<close> rounds to binary64 (53 bits, -1022), as every arithmetic operation of the
  script does.
\<close>

definition fround :: "real \<Rightarrow> real" where
  "fround x = roundFloat 24 (- 126) x"

definition dround :: "real \<Rightarrow> real" where
  "dround x = roundFloat 53 (- 1022) x"

text \<open>The number that the literal \<^verbatim>\<open>0.08\<close> of \<^verbatim>\<open>const lerpFactor = 0.08\<close> denotes.\<close>

definition lerpFactorDouble :: real where
  "lerpFactorDouble = dround lerpFactor"

text \<open>
  The statement \<^verbatim>\<open>a[i] += (target - a[i]) * lerpFactor\<close> on a \<^verbatim>\<open>Float32Array\<close>
  \<open>a\<close> whose element is \<open>live\<close>, for a binary64 number \<open>target\<close>: the subtraction, the
  multiplication and the addition round to binary64, the assignment rounds to
  binary32.
\<close>

definition lerpStepFloat32 :: "real \<Rightarrow> real \<Rightarrow> real" where
  "lerpStepFloat32 live target =
     fround (dround (live + dround (dround (target - live) * lerpFactorDouble)))"

text \<open>
  \<^verbatim>\<open>Math.sin\<close> and \<^verbatim>\<open>Math.cos\<close> of the engine: the language leaves their results to the
  implementation, so they are parameters.
\<close>

record mathLib =
  mathSin :: "real \<Rightarrow> real"
  mathCos :: "real \<Rightarrow> real"

text \<open>
  The body of the particle loop of \<^verbatim>\<open>animate\<close> for particle \<open>i\<close> with the rounding of
  each operation. \<open>time\<close> is the binary64 number \<^verbatim>\<open>Date.now() * 0.001\<close>; the arrays
  hold binary32 numbers; \<^verbatim>\<open>0.5\<close> and \<^verbatim>\<open>10\<close> are numbers of the format, \<^verbatim>\<open>0.2\<close>
  and \<^verbatim>\<open>0.1\<close> are rounded.
\<close>

definition animateParticleFloat32 ::
  "mathLib \<Rightarrow> real \<Rightarrow> real list \<Rightarrow> real list \<Rightarrow> real list \<Rightarrow> nat
     \<Rightarrow> real list \<times> real list \<Rightarrow> real list \<times> real list" where
  "animateParticleFloat32 lib time randoms targets targetCols i buf =
     (let (positions, colors) = buf;
          i3 = i * 3;
          floatOffset =
            dround (mathSin lib (dround (time + dround (randoms ! i * 10))) * dround 0.2);
          floatOffsetX =
            dround (mathCos lib (dround (dround (time * 0.5) + dround (randoms ! i * 10)))
                      * dround 0.1);
          targetX = dround (targets ! i3 + floatOffsetX);
          targetY = dround (targets ! (i3 + 1) + floatOffset);
          targetZ = targets ! (i3 + 2);
          positions = positions[i3 := lerpStepFloat32 (positions ! i3) targetX];
          positions = positions[i3 + 1 := lerpStepFloat32 (positions ! (i3 + 1)) targetY];
          positions = positions[i3 + 2 := lerpStepFloat32 (positions ! (i3 + 2)) targetZ];
          colors = colors[i3 := lerpStepFloat32 (colors ! i3) (targetCols ! i3)];
          colors = colors[i3 + 1 := lerpStepFloat32 (colors ! (i3 + 1)) (targetCols ! (i3 + 1))];
          colors = colors[i3 + 2 := lerpStepFloat32 (colors ! (i3 + 2)) (targetCols ! (i3 + 2))]
      in (positions, colors))"

text \<open>The live buffers after the first \<open>n\<close> iterations of the particle loop.\<close>

primrec animateLoopFloat32 ::
  "mathLib \<Rightarrow> real \<Rightarrow> real list \<Rightarrow> real list \<Rightarrow> real list \<Rightarrow> real list \<times> real list
     \<Rightarrow> nat \<Rightarrow> real list \<times> real list" where
  "animateLoopFloat32 lib time randoms targets targetCols buf 0 = buf"
| "animateLoopFloat32 lib time randoms targets targetCols buf (Suc i) =
     animateParticleFloat32 lib time randoms targets targetCols i
       (animateLoopFloat32 lib time randoms targets targetCols buf i)"

text \<open>One call of \<^verbatim>\<open>animate\<close>, and \<open>n\<close> frames while the store stays as it is.\<close>

definition animateFloat32 ::
  "mathLib \<Rightarrow> real \<Rightarrow> real list \<Rightarrow> store \<Rightarrow> real list \<times> real list
     \<Rightarrow> real list \<times> real list" where
  "animateFloat32 lib time randoms st buf =
     (case (deref st (targetPositionsRef st), deref st (targetColorsRef st)) of
        (Some targets, Some targetCols) \<Rightarrow>
          animateLoopFloat32 lib time randoms targets targetCols buf particleCount
      | _ \<Rightarrow> buf)"

primrec animateFramesFloat32 ::
  "mathLib \<Rightarrow> (nat \<Rightarrow> real) \<Rightarrow> real list \<Rightarrow> store \<Rightarrow> real list \<times> real list \<Rightarrow> nat
     \<Rightarrow> real list \<times> real list" where
  "animateFramesFloat32 lib clock randoms st buf 0 = buf"
| "animateFramesFloat32 lib clock randoms st buf (Suc n) =
     animateFloat32 lib (clock n) randoms st (animateFramesFloat32 lib clock randoms st buf n)"

section \<open>The capacity normalisation in the words of the specification\<close>

text \<open>
  Section 4.1 of the specification: entry \<open>i\<close> of the target buffer is the position and
  the colour of \<open>points ! i\<close> for \<open>i < length points\<close>, and the origin with every colour
  channel zero for the other \<open>i\<close> below the capacity. \<open>normalized positionChannel points\<close>
  and \<open>normalized colorChannel points\<close> are these two buffers, three channels per
  particle. The code is \<open>installTargets\<close>.
\<close>

definition positionChannel :: "ParticlePoint \<Rightarrow> nat \<Rightarrow> real" where
  "positionChannel p c = (if c = 0 then pt_x p else if c = 1 then pt_y p else pt_z p)"

definition colorChannel :: "ParticlePoint \<Rightarrow> nat \<Rightarrow> real" where
  "colorChannel p c =
     (if c = 0 then fst (pt_color p) else if c = 1 then fst (snd (pt_color p))
      else snd (snd (pt_color p)))"

definition normalized ::
  "(ParticlePoint \<Rightarrow> nat \<Rightarrow> real) \<Rightarrow> ParticlePoint list \<Rightarrow> real list" where
  "normalized channel points =
     map (\<lambda>j. if j div 3 < length points then channel (points ! (j div 3)) (j mod 3) else 0)
       [0..<particleCount * 3]"

text \<open>
  Section 4.1 of the specification: raster scan order, row-major, top to bottom and
  left to right. \<open>rasterBefore p q\<close> says that pixel \<open>p\<close> comes before pixel \<open>q\<close> in it.
  The code is \<open>scanPixels\<close>.
\<close>

definition rasterBefore :: "pixel \<Rightarrow> pixel \<Rightarrow> bool" where
  "rasterBefore p q =
     (pixel_y p < pixel_y q \<or> (pixel_y p = pixel_y q \<and> pixel_x p < pixel_x q))"

text \<open>
  Section 4.2 of the specification: the effective target of channel \<open>j\<close> of the position
  buffer in a frame at \<open>time\<close> seconds is the target plus the floating offset, horizontal
  for the x channel, vertical for the y channel and none for the z channel. The code is
  \<open>animateParticle\<close>.
\<close>

definition effectiveTarget :: "real \<Rightarrow> real list \<Rightarrow> real list \<Rightarrow> nat \<Rightarrow> real" where
  "effectiveTarget time randoms targets j =
     targets ! j +
       (if j mod 3 = 0 then cos (time * 0.5 + randoms ! (j div 3) * 10) * 0.1
        else if j mod 3 = 1 then sin (time + randoms ! (j div 3) * 10) * 0.2
        else 0)"

text \<open>
  A number \<open>n\<close> of frames with \<open>0.92 ^ n * d < eps\<close>: over the real numbers a
  channel that starts at distance \<open>d\<close> from a constant target is closer to it than
  \<open>eps\<close> after so many frames.
\<close>

definition frameBound :: "real \<Rightarrow> real \<Rightarrow> nat" where
  "frameBound d eps = nat \<lceil>23 * d / (2 * eps)\<rceil>"

text \<open>
  Bounds for the rounded update of a channel whose live value and target are at most
  \<open>M\<close> in absolute value: \<open>roundingError M\<close> bounds the distance of the new value
  from the exact \<open>live + (target - live) * 0.08\<close>, and \<open>stallRadius M\<close> is the
  distance to the target above which a frame still comes closer.
\<close>

definition roundingError :: "real \<Rightarrow> real" where
  "roundingError M = M * (1 / 2 ^ 24 + 1 / 2 ^ 52)"

definition stallRadius :: "real \<Rightarrow> real" where
  "stallRadius M = 25 / 2 * roundingError M"

section \<open>Concrete inputs\<close>

text \<open>A canvas on which nothing is visible: every byte of the image is 0.\<close>

definition blankImage :: "nat \<Rightarrow> nat list \<Rightarrow> nat \<Rightarrow> nat" where
  "blankImage fontSize text i = 0"

text \<open>A canvas that is white everywhere.\<close>

definition whiteImage :: "nat \<Rightarrow> nat list \<Rightarrow> nat \<Rightarrow> nat" where
  "whiteImage fontSize text i = 255"

text \<open>A canvas whose only white pixel is the one at column 0 of row 0.\<close>

definition cornerImage :: "nat \<Rightarrow> nat list \<Rightarrow> nat \<Rightarrow> nat" where
  "cornerImage fontSize text i = (if i < 4 then 255 else 0)"

text \<open>Two random sequences with the same first value.\<close>

definition drawsLow :: "nat \<Rightarrow> real" where
  "drawsLow k = 0.5"

definition drawsSecondHigh :: "nat \<Rightarrow> real" where
  "drawsSecondHigh k = (if k = 1 then 0.96 else 0.5)"

definition blankBrowser :: browser where
  "blankBrowser = \<lparr>random = drawsLow, hasContext = True, imageData = blankImage\<rparr>"

definition whiteBrowser :: browser where
  "whiteBrowser = \<lparr>random = drawsLow, hasContext = True, imageData = whiteImage\<rparr>"

definition cornerBrowser :: browser where
  "cornerBrowser = \<lparr>random = drawsLow, hasContext = True, imageData = cornerImage\<rparr>"

definition goldBrowser :: browser where
  "goldBrowser = \<lparr>random = drawsSecondHigh, hasContext = True, imageData = blankImage\<rparr>"

text \<open>A point, and live buffers of ones and of zeros, a frame clock and random seeds.\<close>

definition samplePoint :: ParticlePoint where
  "samplePoint = createPoint 1 2 3 (0.5, 0.5, 0.5)"

definition onesBuffer :: "real list" where
  "onesBuffer = replicate (particleCount * 3) 1"

definition zeroBuffer :: "real list" where
  "zeroBuffer = replicate (particleCount * 3) 0"

definition frameClock :: "nat \<Rightarrow> real" where
  "frameClock n = real n / 60"

definition zeroRandoms :: "real list" where
  "zeroRandoms = replicate particleCount 0"

text \<open>The store before the first stage effect: no array, both refs \<^verbatim>\<open>null\<close>.\<close>

definition emptyStore :: store where
  "emptyStore =
     \<lparr>heap = (\<lambda>a. None), nextAddr = 0, targetPositionsRef = None, targetColorsRef = None\<rparr>"

text \<open>
  A library whose sine and cosine are rounded correctly, and a live buffer every channel
  of which is the binary32 number \<open>1 / 2 + 6 / 2 ^ 24\<close> (0.5000003576278687).
\<close>

definition exactMath :: mathLib where
  "exactMath = \<lparr>mathSin = (\<lambda>x. dround (sin x)), mathCos = (\<lambda>x. dround (cos x))\<rparr>"

definition stalledBuffer :: "real list" where
  "stalledBuffer = replicate (particleCount * 3) (1 / 2 + 6 / 2 ^ 24)"

section \<open>Stage controller: properties\<close>

lemma length_STAGE_ORDER: "length STAGE_ORDER = 7"
  by (simp add: STAGE_ORDER_def)

lemma handleNextStage_index:
  "currentStageIndex (handleNextStage st) = min (currentStageIndex st + 1) 6"
  by (simp add: handleNextStage_def length_STAGE_ORDER)

lemma handleNextStage_hands:
  "handState (handleNextStage st) = handState st"
  "prevHandState (handleNextStage st) = prevHandState st"
  by (simp_all add: handleNextStage_def)

lemma handleNextStage_iterate:
  "currentStageIndex st \<le> 6 \<Longrightarrow>
   currentStageIndex ((handleNextStage ^^ k) st) = min (currentStageIndex st + k) 6"
proof (induction k)
  case 0
  then show ?case by simp
next
  case (Suc k)
  then show ?case by (simp add: handleNextStage_index)
qed

lemma pending_after_calls:
  "foldl (\<lambda>pending state. onHandStateChange state pending) h calls = last (h # calls)"
  by (induction calls arbitrary: h) (simp_all add: onHandStateChange_def)

lemma renderTurn_index:
  "prevHandState st = handState st \<Longrightarrow>
   currentStageIndex (renderTurn calls st) =
     (if handState st = OPEN \<and> last (handState st # calls) = CLOSED
      then min (currentStageIndex st + 1) 6 else currentStageIndex st)"
  unfolding renderTurn_def pending_after_calls
  by (simp add: gestureEffect_def handleNextStage_def length_STAGE_ORDER Let_def)

lemma renderTurn_hands:
  "prevHandState st = handState st \<Longrightarrow>
   prevHandState (renderTurn calls st) = last (handState st # calls)
   \<and> handState (renderTurn calls st) = last (handState st # calls)"
  unfolding renderTurn_def pending_after_calls
  by (simp add: gestureEffect_def handleNextStage_def Let_def)

text \<open>
  After the effect has run, the previous-gesture cell equals the current one. This holds
  at the start, after a reset and after a manual advance, and every render turn keeps it.
\<close>

lemma gesture_invariant_established:
  "prevHandState initialApp = handState initialApp"
  "prevHandState (handleReset st) = handState (handleReset st)"
  "prevHandState st = handState st \<Longrightarrow>
   prevHandState (handleNextStage st) = handState (handleNextStage st)"
  by (simp_all add: initialApp_def handleReset_def handleNextStage_def)

lemma renderTurns_run:
  "prevHandState st = handState st \<Longrightarrow> currentStageIndex st \<le> 6 \<Longrightarrow>
   currentStageIndex (renderTurns tss st)
     = min (currentStageIndex st
            + fallingEdges (handState st) (renderedStates (handState st) tss)) 6
   \<and> prevHandState (renderTurns tss st) = last (handState st # renderedStates (handState st) tss)
   \<and> handState (renderTurns tss st) = last (handState st # renderedStates (handState st) tss)"
proof (induction tss arbitrary: st)
  case Nil
  then show ?case by simp
next
  case (Cons calls tss)
  let ?st = "renderTurn calls st"
  let ?s = "last (handState st # calls)"
  have h: "prevHandState ?st = ?s" "handState ?st = ?s"
    using renderTurn_hands [OF Cons.prems(1)] by simp_all
  have i: "currentStageIndex ?st =
      (if handState st = OPEN \<and> ?s = CLOSED then min (currentStageIndex st + 1) 6
       else currentStageIndex st)"
    by (rule renderTurn_index [OF Cons.prems(1)])
  have le: "currentStageIndex ?st \<le> 6"
    using i Cons.prems(2) by simp
  have "prevHandState ?st = handState ?st"
    using h by simp
  from Cons.IH [OF this le] show ?case
    unfolding h i by (auto simp add: min_def)
qed

lemma renderedStates_singletons:
  "renderedStates h (map (\<lambda>s. [s]) ss) = ss"
  by (induction ss arbitrary: h) simp_all

section \<open>Claims on the stage controller\<close>

text \<open>
  C6. Each call of \<^verbatim>\<open>advance()\<close> (\<open>handleNextStage\<close>) maps the index \<open>n\<close> to
  \<open>min (n + 1) (last index)\<close>, the last index being 6. From index 0, \<open>k\<close> calls end at
  \<open>min k 6\<close>: the index reaches 6 after six calls and stays there, so ten calls end at 6
  (the stage \<open>HAPPY_NEW_YEAR\<close>), and a call at the last stage changes nothing.
\<close>

theorem advance_clamps_at_last_stage:
  "currentStageIndex (handleNextStage st)
     = min (currentStageIndex st + 1) (length STAGE_ORDER - 1)
   \<and> length STAGE_ORDER - 1 = 6
   \<and> currentStageIndex ((handleNextStage ^^ k) initialApp) = min k 6
   \<and> currentStageIndex ((handleNextStage ^^ 10) initialApp) = 6
   \<and> handleNextStage (st\<lparr>currentStageIndex := 6\<rparr>) = st\<lparr>currentStageIndex := 6\<rparr>
   \<and> currentStage ((handleNextStage ^^ 10) initialApp) = Some HAPPY_NEW_YEAR"
proof -
  have i0: "currentStageIndex initialApp \<le> 6"
    by (simp add: initialApp_def)
  have k: "currentStageIndex ((handleNextStage ^^ k) initialApp) = min k 6" for k
    using handleNextStage_iterate [OF i0, of k] by (simp add: initialApp_def)
  have ten: "currentStageIndex ((handleNextStage ^^ 10) initialApp) = 6"
    using k [of 10] by simp
  have "currentStage ((handleNextStage ^^ 10) initialApp) = Some HAPPY_NEW_YEAR"
    unfolding currentStage_def ten by (simp add: STAGE_ORDER_def)
  moreover have "handleNextStage (st\<lparr>currentStageIndex := 6\<rparr>) = st\<lparr>currentStageIndex := 6\<rparr>"
    by (simp add: handleNextStage_def length_STAGE_ORDER)
  ultimately show ?thesis
    using k ten by (simp add: handleNextStage_def length_STAGE_ORDER)
qed

text \<open>
  C2, as the code has it. The edge test runs once per render turn, on the gesture state
  of the previous render and the state of the last notification of the turn. In a state
  where the effect has run (the previous-gesture cell equals the current one):
  a turn moves the stage index to \<open>min (index + 1) 6\<close> when the previous state is
  \<open>OPEN\<close> and the last notification of the turn is \<open>CLOSED\<close>, and leaves it unchanged
  otherwise, and the previous-gesture cell holds that last state afterwards. So when a
  notification \<open>s\<close> is rendered on its own, the index below the last one grows by exactly
  one if and only if the previous state is \<open>OPEN\<close> and \<open>s\<close> is \<open>CLOSED\<close>, and the
  previous-gesture cell holds \<open>s\<close> afterwards in every case. Over a sequence of turns the
  index ends at the start index plus the number of falling edges among the rendered
  states, clamped at 6. Rendered one by one, \<open>OPEN, OPEN, CLOSED\<close> from the initial
  state ends at index 1 and \<open>CLOSED, OPEN\<close> at index 0; delivered in one turn,
  \<open>OPEN, OPEN, CLOSED\<close> ends at index 0.
\<close>

theorem gesture_edge_per_render:
  assumes "prevHandState st = handState st" and "currentStageIndex st \<le> 6"
  shows "currentStageIndex (renderTurn calls st) =
           (if handState st = OPEN \<and> last (handState st # calls) = CLOSED
            then min (currentStageIndex st + 1) 6 else currentStageIndex st)
       \<and> prevHandState (renderTurn calls st) = last (handState st # calls)
       \<and> handState (renderTurn calls st) = last (handState st # calls)
       \<and> currentStageIndex (renderTurn [s] st) =
           (if handState st = OPEN \<and> s = CLOSED then min (currentStageIndex st + 1) 6
            else currentStageIndex st)
       \<and> (currentStageIndex st < 6 \<longrightarrow>
            (currentStageIndex (renderTurn [s] st) = currentStageIndex st + 1
               \<longleftrightarrow> handState st = OPEN \<and> s = CLOSED))
       \<and> prevHandState (renderTurn [s] st) = s
       \<and> currentStageIndex (renderTurns tss st)
            = min (currentStageIndex st
                   + fallingEdges (handState st) (renderedStates (handState st) tss)) 6
       \<and> currentStageIndex (renderTurns (map (\<lambda>s. [s]) ss) st)
            = min (currentStageIndex st + fallingEdges (handState st) ss) 6
       \<and> prevHandState (renderTurns (map (\<lambda>s. [s]) ss) st) = last (handState st # ss)
       \<and> currentStageIndex (renderTurns [[OPEN], [OPEN], [CLOSED]] initialApp) = 1
       \<and> currentStageIndex (renderTurns [[CLOSED], [OPEN]] initialApp) = 0
       \<and> currentStageIndex (renderTurns [[OPEN, OPEN, CLOSED]] initialApp) = 0"
proof -
  have init: "prevHandState initialApp = handState initialApp"
    "currentStageIndex initialApp \<le> 6"
    by (simp_all add: initialApp_def)
  have e1: "currentStageIndex (renderTurns [[OPEN], [OPEN], [CLOSED]] initialApp) = 1"
    using renderTurns_run [OF init, of "[[OPEN], [OPEN], [CLOSED]]"]
    by (simp add: initialApp_def)
  have e2: "currentStageIndex (renderTurns [[CLOSED], [OPEN]] initialApp) = 0"
    using renderTurns_run [OF init, of "[[CLOSED], [OPEN]]"]
    by (simp add: initialApp_def)
  have e3: "currentStageIndex (renderTurns [[OPEN, OPEN, CLOSED]] initialApp) = 0"
    using renderTurns_run [OF init, of "[[OPEN, OPEN, CLOSED]]"]
    by (simp add: initialApp_def)
  have t: "currentStageIndex (renderTurn calls st) =
           (if handState st = OPEN \<and> last (handState st # calls) = CLOSED
            then min (currentStageIndex st + 1) 6 else currentStageIndex st)"
    and h: "prevHandState (renderTurn calls st) = last (handState st # calls)"
      "handState (renderTurn calls st) = last (handState st # calls)"
    using renderTurn_index [OF assms(1), of calls] renderTurn_hands [OF assms(1), of calls]
    by simp_all
  have t1: "currentStageIndex (renderTurn [s] st) =
           (if handState st = OPEN \<and> s = CLOSED then min (currentStageIndex st + 1) 6
            else currentStageIndex st)"
    and h1: "prevHandState (renderTurn [s] st) = s"
    using renderTurn_index [OF assms(1), of "[s]"] renderTurn_hands [OF assms(1), of "[s]"]
    by simp_all
  have iff: "currentStageIndex st < 6 \<longrightarrow>
            (currentStageIndex (renderTurn [s] st) = currentStageIndex st + 1
               \<longleftrightarrow> handState st = OPEN \<and> s = CLOSED)"
    unfolding t1 by simp
  have r: "currentStageIndex (renderTurns tss st)
            = min (currentStageIndex st
                   + fallingEdges (handState st) (renderedStates (handState st) tss)) 6"
    using renderTurns_run [OF assms, of tss] by simp
  have r1: "currentStageIndex (renderTurns (map (\<lambda>s. [s]) ss) st)
            = min (currentStageIndex st + fallingEdges (handState st) ss) 6"
    and r2: "prevHandState (renderTurns (map (\<lambda>s. [s]) ss) st) = last (handState st # ss)"
    using renderTurns_run [OF assms, of "map (\<lambda>s. [s]) ss"]
    by (simp_all add: renderedStates_singletons)
  show ?thesis
    using t h t1 iff h1 r r1 r2 e1 e2 e3 by blast
qed

text \<open>
  The hypotheses of C2 in the state after a rendered \<open>OPEN\<close>: a rendered \<open>CLOSED\<close> advances
  to index 1, and the turns \<open>CLOSED\<close>, \<open>OPEN\<close>, \<open>CLOSED\<close> end at index 2.
\<close>

theorem gesture_edge_per_render_witness:
  "prevHandState (initialApp\<lparr>handState := OPEN, prevHandState := OPEN\<rparr>) = OPEN
   \<and> currentStageIndex
       (renderTurn [CLOSED] (initialApp\<lparr>handState := OPEN, prevHandState := OPEN\<rparr>)) = 1
   \<and> prevHandState
       (renderTurn [CLOSED] (initialApp\<lparr>handState := OPEN, prevHandState := OPEN\<rparr>))
       = CLOSED
   \<and> currentStageIndex
       (renderTurns [[CLOSED], [OPEN], [CLOSED]]
          (initialApp\<lparr>handState := OPEN, prevHandState := OPEN\<rparr>)) = 2"
proof -
  let ?st = "initialApp\<lparr>handState := OPEN, prevHandState := OPEN\<rparr>"
  have a: "prevHandState ?st = handState ?st" "currentStageIndex ?st \<le> 6"
    by (simp_all add: initialApp_def)
  from gesture_edge_per_render [OF a, of "[CLOSED]" CLOSED "[[CLOSED], [OPEN], [CLOSED]]"]
  have "currentStageIndex (renderTurn [CLOSED] ?st) =
           (if handState ?st = OPEN \<and> CLOSED = CLOSED then min (currentStageIndex ?st + 1) 6
            else currentStageIndex ?st)"
    and "prevHandState (renderTurn [CLOSED] ?st) = CLOSED"
    and "currentStageIndex (renderTurns [[CLOSED], [OPEN], [CLOSED]] ?st)
            = min (currentStageIndex ?st
                   + fallingEdges (handState ?st)
                       (renderedStates (handState ?st) [[CLOSED], [OPEN], [CLOSED]])) 6"
    by blast+
  then show ?thesis
    by (simp add: initialApp_def)
qed

text \<open>
  C2 as stated fails in two ways. At the last stage: after six falling edges, each
  notification rendered on its own, the index is 6 and the previous state is \<open>OPEN\<close>;
  the notification \<open>CLOSED\<close> is a falling edge, and the index stays 6. And within one
  turn: the notifications \<open>OPEN\<close>, \<open>OPEN\<close>, \<open>CLOSED\<close> of one message reach the effect as
  the single change from \<open>UNKNOWN\<close> to \<open>CLOSED\<close>, so the index stays 0 and the
  previous-gesture cell never holds \<open>OPEN\<close>.
\<close>

theorem gesture_edge_counterexample:
  "renderTurns [[OPEN], [CLOSED], [OPEN], [CLOSED], [OPEN], [CLOSED], [OPEN], [CLOSED],
       [OPEN], [CLOSED], [OPEN], [CLOSED], [OPEN]] initialApp
     = \<lparr>currentStageIndex = 6, handState = OPEN, prevHandState = OPEN\<rparr>
   \<and> currentStageIndex
       (renderTurn [CLOSED]
          \<lparr>currentStageIndex = 6, handState = OPEN, prevHandState = OPEN\<rparr>) = 6
   \<and> renderTurn [OPEN, OPEN, CLOSED] initialApp
     = \<lparr>currentStageIndex = 0, handState = CLOSED, prevHandState = CLOSED\<rparr>"
  by (simp add: initialApp_def renderTurn_def onHandStateChange_def gestureEffect_def
      handleNextStage_def length_STAGE_ORDER Let_def)

section \<open>Shape generator: properties of the loops\<close>

lemma length_treeLoop: "length (fst (treeLoop rnd k0 n)) = n"
  by (induction n) (simp_all add: split_def Let_def)

lemma treeLoop_nth:
  "i < n \<Longrightarrow>
   fst (treeLoop rnd k0 n) ! i = treePoint i (fst (treeColor rnd (snd (treeLoop rnd k0 i))))"
proof (induction n)
  case 0
  then show ?case by simp
next
  case (Suc n)
  show ?case
  proof (cases "i < n")
    case True
    with Suc.IH show ?thesis
      by (simp add: split_def Let_def nth_append length_treeLoop)
  next
    case False
    with Suc.prems have "i = n" by simp
    then show ?thesis
      by (simp add: split_def Let_def nth_append length_treeLoop)
  qed
qed

lemma treeLoop_cursor:
  "snd (treeLoop rnd k0 (Suc i)) =
     snd (treeLoop rnd k0 i) + (if rnd (snd (treeLoop rnd k0 i)) > 0.95 then 1 else 2)"
  by (simp add: split_def Let_def treeColor_def)

lemma treeColor_cases:
  "(fst (treeColor rnd k) = RED \<longleftrightarrow> rnd k > 0.95)
   \<and> (fst (treeColor rnd k) = GOLD \<longleftrightarrow> rnd k \<le> 0.95 \<and> rnd (k + 1) > 0.95)
   \<and> (fst (treeColor rnd k) = GREEN \<longleftrightarrow> rnd k \<le> 0.95 \<and> rnd (k + 1) \<le> 0.95)"
  by (auto simp add: treeColor_def RED_def GOLD_def GREEN_def)

lemma treeHeight_bounds: "i < PARTICLE_COUNT \<Longrightarrow> - 10 \<le> treeHeight i \<and> treeHeight i < 10"
  by (simp add: treeHeight_def PARTICLE_COUNT_def)

lemma treeHeight_mono: "i \<le> j \<Longrightarrow> treeHeight i \<le> treeHeight j"
  by (simp add: treeHeight_def PARTICLE_COUNT_def)

lemma treeRadius_antimono: "h1 \<le> h2 \<Longrightarrow> treeRadius h2 \<le> treeRadius h1"
  by (simp add: treeRadius_def)

lemma treePoint_fields:
  "pt_y (treePoint i c) = treeHeight i"
  "pt_color (treePoint i c) = c"
  "(pt_x (treePoint i c))\<^sup>2 + (pt_z (treePoint i c))\<^sup>2 = (treeRadius (treeHeight i))\<^sup>2"
proof -
  show "pt_y (treePoint i c) = treeHeight i" "pt_color (treePoint i c) = c"
    by (simp_all add: treePoint_def createPoint_def Let_def)
  have "(cos a * r)\<^sup>2 + (sin a * r)\<^sup>2 = r\<^sup>2" for a r :: real
  proof -
    have "(cos a * r)\<^sup>2 + (sin a * r)\<^sup>2 = ((cos a)\<^sup>2 + (sin a)\<^sup>2) * r\<^sup>2"
      by (simp only: power_mult_distrib distrib_right)
    also have "\<dots> = r\<^sup>2"
      by (simp only: sin_cos_squared_add2 mult_1)
    finally show ?thesis .
  qed
  then show "(pt_x (treePoint i c))\<^sup>2 + (pt_z (treePoint i c))\<^sup>2 = (treeRadius (treeHeight i))\<^sup>2"
    by (simp add: treePoint_def createPoint_def Let_def)
qed

lemma length_textLoop: "length (fst (textLoop rnd k0 vp c n)) = n"
  by (induction n) (simp_all add: split_def Let_def)

lemma textLoop_cursor: "snd (textLoop rnd k0 vp c n) = k0 + n"
  by (induction n) (simp_all add: split_def Let_def)

lemma textLoop_nth:
  "i < n \<Longrightarrow>
   fst (textLoop rnd k0 vp c n) ! i = textPoint (vp ! (i mod length vp)) (rnd (k0 + i)) c"
proof (induction n)
  case 0
  then show ?case by simp
next
  case (Suc n)
  show ?case
  proof (cases "i < n")
    case True
    with Suc.IH show ?thesis
      by (simp add: split_def Let_def nth_append length_textLoop)
  next
    case False
    with Suc.prems have "i = n" by simp
    then show ?thesis
      by (simp add: split_def Let_def nth_append length_textLoop textLoop_cursor)
  qed
qed

lemma scanRow_dark:
  assumes "\<And>i. data i \<le> 128"
  shows "scanRow data y = []"
proof -
  have "\<not> 128 < data i" for i
    using assms [of i] by simp
  then show ?thesis
    by (simp add: scanRow_def Let_def)
qed

lemma scanPixels_dark: "(\<And>i. data i \<le> 128) \<Longrightarrow> scanPixels data = []"
  by (simp add: scanPixels_def scanRow_dark)


section \<open>Store: properties of the stage effect\<close>

lemma setElem_frame:
  "nextAddr (setElem st w) = nextAddr st"
  "targetPositionsRef (setElem st w) = targetPositionsRef st"
  "targetColorsRef (setElem st w) = targetColorsRef st"
  by (simp_all add: setElem_def split: prod.splits option.splits)

lemma setElem_heap:
  "heap (setElem st (a, i, v)) b =
     (if b = a then map_option (\<lambda>xs. xs[i := v]) (heap st a) else heap st b)"
  by (simp add: setElem_def split: option.splits)

lemma execWrites_frame:
  "nextAddr (execWrites ws st) = nextAddr st
   \<and> targetPositionsRef (execWrites ws st) = targetPositionsRef st
   \<and> targetColorsRef (execWrites ws st) = targetColorsRef st"
  unfolding execWrites_def
  by (induction ws arbitrary: st) (simp_all add: setElem_frame)

lemma execWrites_other:
  "b \<notin> fst ` set ws \<Longrightarrow> heap (execWrites ws st) b = heap st b"
  unfolding execWrites_def
proof (induction ws arbitrary: st)
  case Nil
  then show ?case by simp
next
  case (Cons w ws)
  obtain a i v where w: "w = (a, i, v)" by (cases w)
  with Cons.prems have "b \<noteq> a" "b \<notin> fst ` set ws" by auto
  with Cons.IH [of "setElem st w"] show ?case
    by (simp add: w setElem_heap)
qed

text \<open>
  Writes to the array at \<open>a\<close> whose values agree with a function \<open>F\<close> of the index: the
  array ends with \<open>F j\<close> at every index \<open>j\<close> that was written and is unchanged elsewhere.
\<close>

lemma execWrites_array:
  assumes "heap st a = Some xs"
    and "\<And>i v. (a, i, v) \<in> set ws \<Longrightarrow> v = F i"
  shows "\<exists>ys. heap (execWrites ws st) a = Some ys \<and> length ys = length xs
           \<and> (\<forall>j < length xs. ys ! j = (if j \<in> {i. \<exists>v. (a, i, v) \<in> set ws} then F j else xs ! j))"
  using assms unfolding execWrites_def
proof (induction ws arbitrary: st xs)
  case Nil
  then show ?case by simp
next
  case (Cons w ws)
  obtain a' i v where w: "w = (a', i, v)" by (cases w)
  show ?case
  proof (cases "a' = a")
    case True
    have h: "heap (setElem st w) a = Some (xs[i := v])"
      using Cons.prems(1) True by (simp add: w setElem_heap)
    have v: "v = F i" using Cons.prems(2) [of i v] True w by simp
    have r: "\<And>i v. (a, i, v) \<in> set ws \<Longrightarrow> v = F i"
      using Cons.prems(2) by simp
    from Cons.IH [OF h r] obtain ys where ys:
      "heap (foldl setElem (setElem st w) ws) a = Some ys" "length ys = length xs"
      "\<forall>j < length xs. ys ! j = (if j \<in> {i. \<exists>v. (a, i, v) \<in> set ws} then F j else xs[i := v] ! j)"
      by auto
    have "\<forall>j < length xs. ys ! j = (if j \<in> {i. \<exists>v. (a, i, v) \<in> set (w # ws)} then F j else xs ! j)"
      using ys(3) v True w by (auto simp add: nth_list_update)
    with ys(1,2) show ?thesis by simp
  next
    case False
    have h: "heap (setElem st w) a = Some xs"
      using Cons.prems(1) False by (simp add: w setElem_heap)
    have r: "\<And>i v. (a, i, v) \<in> set ws \<Longrightarrow> v = F i"
      using Cons.prems(2) by simp
    from Cons.IH [OF h r] obtain ys where ys:
      "heap (foldl setElem (setElem st w) ws) a = Some ys" "length ys = length xs"
      "\<forall>j < length xs. ys ! j = (if j \<in> {i. \<exists>v. (a, i, v) \<in> set ws} then F j else xs ! j)"
      by auto
    have "{i. \<exists>v. (a, i, v) \<in> set (w # ws)} = {i. \<exists>v. (a, i, v) \<in> set ws}"
      using False w by auto
    with ys show ?thesis by simp
  qed
qed

lemma set_forEachWrites:
  "set (forEachWrites pa ca i0 ps) = (\<Union>k < length ps. set (pointWrites pa ca (i0 + k) (ps ! k)))"
proof (induction ps arbitrary: i0)
  case Nil
  then show ?case by simp
next
  case (Cons p ps)
  have "(\<Union>k < Suc (length ps). set (pointWrites pa ca (i0 + k) ((p # ps) ! k)))
      = set (pointWrites pa ca i0 p) \<union> (\<Union>k < length ps. set (pointWrites pa ca (Suc i0 + k) (ps ! k)))"
    by (simp add: lessThan_Suc_eq_insert_0 image_image)
  with Cons.IH [of "Suc i0"] show ?case by simp
qed

lemma set_padWrites:
  "set (padWrites pa ca n) = (\<Union>i \<in> {n..<particleCount}. set (zeroWrites pa ca i))"
  by (simp add: padWrites_def)


lemma channel_arith:
  "(i * 3) div 3 = i" "(i * 3 + 1) div 3 = i" "(i * 3 + 2) div 3 = i"
  "(i * 3) mod 3 = 0" "(i * 3 + 1) mod 3 = 1" "(i * 3 + 2) mod 3 = 2"
  for i :: nat
  by presburger+

lemma pointWrites_sound:
  assumes "(a, j, v) \<in> set (pointWrites pa ca i p)"
  shows "j div 3 = i \<and> i < particleCount
   \<and> (a = pa \<and> v = positionChannel p (j mod 3) \<or> a = ca \<and> v = colorChannel p (j mod 3))"
proof -
  have i: "i < particleCount"
    using assms by (simp add: pointWrites_def split: if_splits)
  then have "(a, j, v) = (pa, i * 3, pt_x p) \<or> (a, j, v) = (pa, i * 3 + 1, pt_y p)
      \<or> (a, j, v) = (pa, i * 3 + 2, pt_z p) \<or> (a, j, v) = (ca, i * 3, fst (pt_color p))
      \<or> (a, j, v) = (ca, i * 3 + 1, fst (snd (pt_color p)))
      \<or> (a, j, v) = (ca, i * 3 + 2, snd (snd (pt_color p)))"
    using assms by (simp add: pointWrites_def del: One_nat_def)
  then show ?thesis
    using i channel_arith [of i]
    by (elim disjE) (simp_all add: positionChannel_def colorChannel_def del: One_nat_def)
qed

lemma zeroWrites_sound:
  assumes "(a, j, v) \<in> set (zeroWrites pa ca i)"
  shows "j div 3 = i \<and> v = 0 \<and> (a = pa \<or> a = ca)"
proof -
  have "(a, j, v) = (pa, i * 3, 0) \<or> (a, j, v) = (pa, i * 3 + 1, 0)
      \<or> (a, j, v) = (pa, i * 3 + 2, 0) \<or> (a, j, v) = (ca, i * 3, 0)
      \<or> (a, j, v) = (ca, i * 3 + 1, 0) \<or> (a, j, v) = (ca, i * 3 + 2, 0)"
    using assms by (simp add: zeroWrites_def del: One_nat_def)
  then show ?thesis
    using channel_arith [of i]
    by (elim disjE) (simp_all del: One_nat_def)
qed

lemma pointWrites_member:
  assumes "i < particleCount" and "c < 3"
  shows "(pa, i * 3 + c, positionChannel p c) \<in> set (pointWrites pa ca i p)
       \<and> (ca, i * 3 + c, colorChannel p c) \<in> set (pointWrites pa ca i p)"
proof -
  from assms(2) have "c = 0 \<or> c = 1 \<or> c = 2" by arith
  then show ?thesis
    using assms(1)
    by (elim disjE) (simp_all add: pointWrites_def positionChannel_def colorChannel_def)
qed

lemma zeroWrites_member:
  assumes "c < 3"
  shows "(pa, i * 3 + c, 0) \<in> set (zeroWrites pa ca i)
       \<and> (ca, i * 3 + c, 0) \<in> set (zeroWrites pa ca i)"
proof -
  from assms have "c = 0 \<or> c = 1 \<or> c = 2" by arith
  then show ?thesis
    by (elim disjE) (simp_all add: zeroWrites_def)
qed

lemma pointWrites_complete:
  assumes "j div 3 < particleCount"
  shows "(pa, j, positionChannel p (j mod 3)) \<in> set (pointWrites pa ca (j div 3) p)
       \<and> (ca, j, colorChannel p (j mod 3)) \<in> set (pointWrites pa ca (j div 3) p)"
proof -
  have e: "j div 3 * 3 + j mod 3 = j" by simp
  have c: "j mod 3 < 3" by simp
  from pointWrites_member [OF assms c, of pa p ca] show ?thesis
    by (simp only: e)
qed

lemma zeroWrites_complete:
  "(pa, j, 0) \<in> set (zeroWrites pa ca (j div 3))
   \<and> (ca, j, 0) \<in> set (zeroWrites pa ca (j div 3))"
proof -
  have e: "j div 3 * 3 + j mod 3 = j" by simp
  have c: "j mod 3 < 3" by simp
  from zeroWrites_member [OF c, of pa "j div 3" ca] show ?thesis
    by (simp only: e)
qed

lemma stageWrites_addresses: "fst ` set (stageWrites pa ca points) \<subseteq> {pa, ca}"
proof
  fix a assume "a \<in> fst ` set (stageWrites pa ca points)"
  then obtain j v where "(a, j, v) \<in> set (stageWrites pa ca points)" by force
  then show "a \<in> {pa, ca}"
    by (auto simp add: stageWrites_def set_forEachWrites set_padWrites
        dest: pointWrites_sound zeroWrites_sound)
qed

lemma stageWrites_sound:
  assumes "(a, j, v) \<in> set (stageWrites pa ca points)" and "pa \<noteq> ca"
  shows "(a = pa \<longrightarrow>
            v = (if j div 3 < length points
                 then positionChannel (points ! (j div 3)) (j mod 3) else 0))
       \<and> (a = ca \<longrightarrow>
            v = (if j div 3 < length points
                 then colorChannel (points ! (j div 3)) (j mod 3) else 0))"
  using assms
  by (auto simp add: stageWrites_def set_forEachWrites set_padWrites
      dest!: pointWrites_sound zeroWrites_sound)

lemma stageWrites_complete:
  assumes "j < particleCount * 3"
  shows "\<exists>v. (pa, j, v) \<in> set (stageWrites pa ca points)"
    and "\<exists>v. (ca, j, v) \<in> set (stageWrites pa ca points)"
proof -
  have i: "j div 3 < particleCount" using assms by simp
  have "(\<exists>v. (pa, j, v) \<in> set (stageWrites pa ca points))
      \<and> (\<exists>v. (ca, j, v) \<in> set (stageWrites pa ca points))"
  proof (cases "j div 3 < length points")
    case True
    let ?p = "points ! (j div 3)"
    have "set (pointWrites pa ca (j div 3) ?p) \<subseteq> set (stageWrites pa ca points)"
      using True by (auto simp add: stageWrites_def set_forEachWrites)
    with pointWrites_complete [OF i, of pa ?p ca] show ?thesis
      by blast
  next
    case False
    with i have "j div 3 \<in> {length points..<particleCount}" by simp
    then have "set (zeroWrites pa ca (j div 3)) \<subseteq> set (stageWrites pa ca points)"
      by (auto simp add: stageWrites_def set_padWrites)
    with zeroWrites_complete [of pa j ca] show ?thesis
      by blast
  qed
  then show "\<exists>v. (pa, j, v) \<in> set (stageWrites pa ca points)"
    and "\<exists>v. (ca, j, v) \<in> set (stageWrites pa ca points)"
    by simp_all
qed

lemma allocTargets_eq:
  "allocTargets st =
     (nextAddr st, nextAddr st + 1,
      st\<lparr>heap := (heap st)(nextAddr st \<mapsto> replicate (particleCount * 3) 0,
                             nextAddr st + 1 \<mapsto> replicate (particleCount * 3) 0),
          nextAddr := nextAddr st + 2\<rparr>)"
  by (simp add: allocTargets_def newFloat32Array_def)

lemma execWrites_stage_array:
  assumes "heap st pa = Some (replicate (particleCount * 3) 0)"
    and "heap st ca = Some (replicate (particleCount * 3) 0)"
    and "pa \<noteq> ca"
  shows "heap (execWrites (stageWrites pa ca points) st) pa = Some (normalized positionChannel points)"
    and "heap (execWrites (stageWrites pa ca points) st) ca = Some (normalized colorChannel points)"
proof -
  let ?ws = "stageWrites pa ca points"
  let ?P = "\<lambda>j. if j div 3 < length points
                 then positionChannel (points ! (j div 3)) (j mod 3) else 0"
  let ?C = "\<lambda>j. if j div 3 < length points
                 then colorChannel (points ! (j div 3)) (j mod 3) else 0"
  have "\<And>i v. (pa, i, v) \<in> set ?ws \<Longrightarrow> v = ?P i"
    using stageWrites_sound [OF _ assms(3)] by blast
  from execWrites_array [OF assms(1), of ?ws ?P, OF this]
  obtain ys where ys: "heap (execWrites ?ws st) pa = Some ys"
    "length ys = particleCount * 3"
    "\<forall>j < particleCount * 3. ys ! j = (if j \<in> {i. \<exists>v. (pa, i, v) \<in> set ?ws} then ?P j else replicate (particleCount * 3) 0 ! j)"
    by auto
  have "ys = normalized positionChannel points"
  proof (rule nth_equalityI)
    show "length ys = length (normalized positionChannel points)"
      using ys(2) by (simp add: normalized_def)
  next
    fix j assume "j < length ys"
    then have j: "j < particleCount * 3" using ys(2) by simp
    with ys(3) stageWrites_complete(1) [OF j] have "ys ! j = ?P j"
      by simp
    then show "ys ! j = normalized positionChannel points ! j"
      using j by (simp add: normalized_def)
  qed
  with ys(1) show "heap (execWrites ?ws st) pa = Some (normalized positionChannel points)"
    by simp
  have "\<And>i v. (ca, i, v) \<in> set ?ws \<Longrightarrow> v = ?C i"
    using stageWrites_sound [OF _ assms(3)] by blast
  from execWrites_array [OF assms(2), of ?ws ?C, OF this]
  obtain zs where zs: "heap (execWrites ?ws st) ca = Some zs"
    "length zs = particleCount * 3"
    "\<forall>j < particleCount * 3. zs ! j = (if j \<in> {i. \<exists>v. (ca, i, v) \<in> set ?ws} then ?C j else replicate (particleCount * 3) 0 ! j)"
    by auto
  have "zs = normalized colorChannel points"
  proof (rule nth_equalityI)
    show "length zs = length (normalized colorChannel points)"
      using zs(2) by (simp add: normalized_def)
  next
    fix j assume "j < length zs"
    then have j: "j < particleCount * 3" using zs(2) by simp
    with zs(3) stageWrites_complete(2) [OF j] have "zs ! j = ?C j"
      by simp
    then show "zs ! j = normalized colorChannel points ! j"
      using j by (simp add: normalized_def)
  qed
  with zs(1) show "heap (execWrites ?ws st) ca = Some (normalized colorChannel points)"
    by simp
qed


lemma installTargets_refs:
  "targetPositionsRef (installTargets points st) = Some (nextAddr st)"
  "targetColorsRef (installTargets points st) = Some (nextAddr st + 1)"
  "nextAddr (installTargets points st) = nextAddr st + 2"
  by (simp_all add: installTargets_def allocTargets_eq Let_def execWrites_frame)

lemma installTargets_heap:
  "heap (installTargets points st) a =
     (if a = nextAddr st then Some (normalized positionChannel points)
      else if a = nextAddr st + 1 then Some (normalized colorChannel points)
      else heap st a)"
proof -
  let ?pa = "nextAddr st" and ?ca = "nextAddr st + 1"
  let ?st2 = "st\<lparr>heap := (heap st)(?pa \<mapsto> replicate (particleCount * 3) 0,
                             ?ca \<mapsto> replicate (particleCount * 3) 0),
          nextAddr := nextAddr st + 2\<rparr>"
  let ?st3 = "execWrites (stageWrites ?pa ?ca points) ?st2"
  have h: "heap (installTargets points st) a = heap ?st3 a"
    by (simp add: installTargets_def allocTargets_eq Let_def)
  have z: "heap ?st2 ?pa = Some (replicate (particleCount * 3) 0)"
    "heap ?st2 ?ca = Some (replicate (particleCount * 3) 0)" "?pa \<noteq> ?ca"
    by simp_all
  note arr = execWrites_stage_array [OF z, of points]
  show ?thesis
  proof (cases "a = ?pa \<or> a = ?ca")
    case True
    then show ?thesis using h arr by auto
  next
    case False
    then have "a \<notin> fst ` set (stageWrites ?pa ?ca points)"
      using stageWrites_addresses [of ?pa ?ca points] by auto
    from execWrites_other [OF this, of ?st2] show ?thesis
      using h False by simp
  qed
qed

lemma stageEffectPrefix_frame:
  "targetPositionsRef (stageEffectPrefix m points st) = targetPositionsRef st"
  "targetColorsRef (stageEffectPrefix m points st) = targetColorsRef st"
  by (simp_all add: stageEffectPrefix_def allocTargets_eq execWrites_frame)

lemma stageEffectPrefix_old:
  assumes "a \<noteq> nextAddr st" and "a \<noteq> nextAddr st + 1"
  shows "heap (stageEffectPrefix m points st) a = heap st a"
proof -
  let ?ws = "stageWrites (nextAddr st) (nextAddr st + 1) points"
  have "set (take m ?ws) \<subseteq> set ?ws"
    by (rule set_take_subset)
  then have "a \<notin> fst ` set (take m ?ws)"
    using stageWrites_addresses [of "nextAddr st" "nextAddr st + 1" points] assms by auto
  from execWrites_other [OF this] show ?thesis
    using assms by (simp add: stageEffectPrefix_def allocTargets_eq)
qed

lemma installTargets_is_last_prefix:
  "installTargets points st =
     (stageEffectPrefix (length (stageWrites (nextAddr st) (nextAddr st + 1) points)) points st)
       \<lparr>targetPositionsRef := Some (nextAddr st), targetColorsRef := Some (nextAddr st + 1)\<rparr>"
  by (simp add: installTargets_def stageEffectPrefix_def allocTargets_eq Let_def)

lemma length_normalized: "length (normalized channel points) = particleCount * 3"
  by (simp add: normalized_def)

lemma normalized_Nil: "normalized channel [] = replicate (particleCount * 3) 0"
  by (simp add: normalized_def map_replicate_const)

lemma normalized_nth:
  "j < particleCount * 3 \<Longrightarrow>
   normalized channel points ! j =
     (if j div 3 < length points then channel (points ! (j div 3)) (j mod 3) else 0)"
  by (simp add: normalized_def)

lemma stageEffect_eq:
  "stageEffect env stage k0 st =
     (installTargets (fst (getPointsForStage env stage k0)) st,
      snd (getPointsForStage env stage k0))"
  by (simp add: stageEffect_def split_def Let_def)

section \<open>Shape generator: the scan, the sizes and the dispatch\<close>

lemma length_generateTreePoints: "length (fst (generateTreePoints env k0)) = PARTICLE_COUNT"
  by (simp add: generateTreePoints_def length_treeLoop)

lemma generateTextPoints_length:
  "length (fst (generateTextPoints env text colorBase k0)) =
     (if hasContext env \<and> scanPixels (imageData env (if length text > 2 then 30 else 80) text) \<noteq> []
      then PARTICLE_COUNT else 0)"
  by (simp add: generateTextPoints_def Let_def length_textLoop)

lemma stride2_lower: "k \<in> set (stride2 lo hi) \<Longrightarrow> lo \<le> k \<and> k < hi"
proof (induction lo hi rule: stride2.induct)
  case (1 lo hi)
  show ?case
  proof (cases "lo < hi")
    case True
    with "1.prems" have "k = lo \<or> k \<in> set (stride2 (lo + 2) hi)"
      by (subst (asm) stride2.simps) simp
    with "1.IH" [OF True] True show ?thesis by auto
  next
    case False
    with "1.prems" show ?thesis
      by (subst (asm) stride2.simps) simp
  qed
qed

lemma scanPixels_corner:
  assumes "128 < data 0" and "\<And>i. 4 \<le> i \<Longrightarrow> data i \<le> 128"
  shows "scanPixels data = [\<lparr>pixel_x = 0, pixel_y = 0\<rparr>]"
proof -
  have r: "stride2 0 CANVAS_HEIGHT = 0 # stride2 2 CANVAS_HEIGHT"
    by (subst stride2.simps) (simp add: CANVAS_HEIGHT_def numeral_2_eq_2)
  have c: "stride2 0 CANVAS_WIDTH = 0 # stride2 2 CANVAS_WIDTH"
    by (subst stride2.simps) (simp add: CANVAS_WIDTH_def numeral_2_eq_2)
  have dark: "\<not> 128 < data i" if "4 \<le> i" for i
    using assms(2) [OF that] by simp
  have row0: "scanRow data 0 = [\<lparr>pixel_x = 0, pixel_y = 0\<rparr>]"
  proof -
    have "\<not> 128 < data (x * 4)" if "x \<in> set (stride2 2 CANVAS_WIDTH)" for x
    proof -
      from stride2_lower [OF that] have "4 \<le> x * 4" by simp
      then show ?thesis by (rule dark)
    qed
    then have "concat (map (\<lambda>x. if 128 < data (x * 4) then [\<lparr>pixel_x = x, pixel_y = 0\<rparr>] else [])
            (stride2 2 CANVAS_WIDTH)) = []"
      by simp
    then show ?thesis
      using assms(1) by (simp add: scanRow_def c)
  qed
  have rows: "concat (map (scanRow data) (stride2 2 CANVAS_HEIGHT)) = []"
  proof -
    have "scanRow data y = []" if "y \<in> set (stride2 2 CANVAS_HEIGHT)" for y
    proof -
      from stride2_lower [OF that] have "2 \<le> y" by simp
      then have "4 \<le> (y * CANVAS_WIDTH + x) * 4" for x
        by (simp add: CANVAS_WIDTH_def)
      then show ?thesis
        by (simp add: scanRow_def dark)
    qed
    then show ?thesis by simp
  qed
  show ?thesis
    by (simp add: scanPixels_def r row0 rows)
qed

lemma textPoint_fields:
  "pt_x (textPoint p r c) = (real (pixel_x p) - 100) * 0.2"
  "pt_y (textPoint p r c) = - (real (pixel_y p) - 50) * 0.2"
  "pt_z (textPoint p r c) = (r - 0.5) * 2"
  "pt_color (textPoint p r c) = c"
  by (simp_all add: textPoint_def createPoint_def CANVAS_WIDTH_def CANVAS_HEIGHT_def Let_def)

lemma generateTextPoints_nonempty:
  assumes "hasContext env"
    and "scanPixels (imageData env (if length text > 2 then 30 else 80) text) \<noteq> []"
  shows "generateTextPoints env text colorBase k0 =
     textLoop (random env) k0 (scanPixels (imageData env (if length text > 2 then 30 else 80) text))
       colorBase PARTICLE_COUNT"
  using assms by (simp add: generateTextPoints_def Let_def)

lemma stride2_unfold: "lo < hi \<Longrightarrow> stride2 lo hi = lo # stride2 (lo + 2) hi"
  by (subst stride2.simps) simp

lemma stride2_empty: "\<not> lo < hi \<Longrightarrow> stride2 lo hi = []"
  by (subst stride2.simps) simp

lemma stride2_even: "k \<in> set (stride2 lo hi) \<Longrightarrow> even (k - lo)"
proof (induction lo hi rule: stride2.induct)
  case (1 lo hi)
  show ?case
  proof (cases "lo < hi")
    case True
    with "1.prems" have "k = lo \<or> k \<in> set (stride2 (lo + 2) hi)"
      by (simp add: stride2_unfold)
    then show ?thesis
    proof
      assume "k = lo" then show ?thesis by simp
    next
      assume k: "k \<in> set (stride2 (lo + 2) hi)"
      from "1.IH" [OF True k] stride2_lower [OF k] show ?thesis
        by auto
    qed
  next
    case False
    with "1.prems" show ?thesis by (simp add: stride2_empty)
  qed
qed

lemma stride2_member:
  "lo \<le> k \<Longrightarrow> k < hi \<Longrightarrow> even (k - lo) \<Longrightarrow> k \<in> set (stride2 lo hi)"
proof (induction lo hi rule: stride2.induct)
  case (1 lo hi)
  from "1.prems" have lt: "lo < hi" by simp
  show ?case
  proof (cases "k = lo")
    case True
    then show ?thesis using lt by (simp add: stride2_unfold)
  next
    case False
    with "1.prems" have "lo + 2 \<le> k"
      by (cases "k = lo + 1") auto
    moreover from this "1.prems"(3) have "even (k - (lo + 2))"
      by simp
    ultimately have "k \<in> set (stride2 (lo + 2) hi)"
      using "1.IH" [OF lt] "1.prems"(2) by simp
    then show ?thesis using lt by (simp add: stride2_unfold)
  qed
qed

lemma set_stride2: "set (stride2 0 hi) = {k. k < hi \<and> even k}"
  using stride2_lower [of _ 0 hi] stride2_even [of _ 0 hi] stride2_member [of 0 _ hi]
  by auto

lemma sorted_stride2: "sorted_wrt (<) (stride2 lo hi)"
proof (induction lo hi rule: stride2.induct)
  case (1 lo hi)
  show ?case
  proof (cases "lo < hi")
    case True
    have "lo < k" if "k \<in> set (stride2 (lo + 2) hi)" for k
      using stride2_lower [OF that] by simp
    with "1.IH" [OF True] show ?thesis
      by (simp add: stride2_unfold [OF True])
  next
    case False
    then show ?thesis by (simp add: stride2_empty)
  qed
qed

lemma length_stride2: "length (stride2 lo hi) = (hi - lo + 1) div 2"
proof (induction lo hi rule: stride2.induct)
  case (1 lo hi)
  show ?case
  proof (cases "lo < hi")
    case True
    with "1.IH" [OF True] show ?thesis
      by (simp add: stride2_unfold [OF True]) presburger
  next
    case False
    then show ?thesis by (simp add: stride2_empty)
  qed
qed

lemma concat_map_if:
  "concat (map (\<lambda>x. if P x then [f x] else []) xs) = map f (filter P xs)"
  by (induction xs) simp_all

lemma scanRow_filter:
  "scanRow data y =
     map (\<lambda>x. \<lparr>pixel_x = x, pixel_y = y\<rparr>)
       (filter (\<lambda>x. 128 < data ((y * CANVAS_WIDTH + x) * 4)) (stride2 0 CANVAS_WIDTH))"
  unfolding scanRow_def Let_def by (rule concat_map_if)

lemma scanRow_member:
  "p \<in> set (scanRow data y) \<longleftrightarrow>
     pixel_y p = y \<and> even (pixel_x p) \<and> pixel_x p < CANVAS_WIDTH
     \<and> 128 < data ((y * CANVAS_WIDTH + pixel_x p) * 4)"
  by (cases p) (auto simp add: scanRow_filter set_stride2)

lemma scanPixels_member:
  "p \<in> set (scanPixels data) \<longleftrightarrow>
     even (pixel_x p) \<and> pixel_x p < CANVAS_WIDTH
     \<and> even (pixel_y p) \<and> pixel_y p < CANVAS_HEIGHT
     \<and> 128 < data ((pixel_y p * CANVAS_WIDTH + pixel_x p) * 4)"
  by (auto simp add: scanPixels_def scanRow_member set_stride2)

lemma sorted_scanRow: "sorted_wrt rasterBefore (scanRow data y)"
proof -
  have "sorted_wrt (<) (filter (\<lambda>x. 128 < data ((y * CANVAS_WIDTH + x) * 4))
      (stride2 0 CANVAS_WIDTH))"
    by (rule sorted_wrt_filter [OF sorted_stride2])
  then show ?thesis
    by (simp add: scanRow_filter sorted_wrt_map rasterBefore_def)
qed

lemma sorted_rows:
  "sorted_wrt (<) ys \<Longrightarrow> sorted_wrt rasterBefore (concat (map (scanRow data) ys))"
proof (induction ys)
  case Nil
  then show ?case by simp
next
  case (Cons y ys)
  have "rasterBefore p q"
    if "p \<in> set (scanRow data y)" and "q \<in> set (concat (map (scanRow data) ys))" for p q
  proof -
    from that(2) obtain y' where "y' \<in> set ys" "q \<in> set (scanRow data y')" by auto
    with Cons.prems that(1) show ?thesis
      by (auto simp add: scanRow_member rasterBefore_def)
  qed
  with Cons show ?case
    by (simp add: sorted_wrt_append sorted_scanRow)
qed

lemma sorted_scanPixels: "sorted_wrt rasterBefore (scanPixels data)"
  unfolding scanPixels_def by (rule sorted_rows [OF sorted_stride2])

lemma scanPixels_white_length:
  assumes "\<And>i. 128 < data i"
  shows "length (scanPixels data) = 5000"
proof -
  have "length (scanRow data y) = 100" for y
    using assms by (simp add: scanRow_filter length_stride2 CANVAS_WIDTH_def)
  then have "map (length \<circ> scanRow data) ys = replicate (length ys) 100" for ys
    by (induction ys) simp_all
  then show ?thesis
    by (simp add: scanPixels_def length_concat length_stride2 CANVAS_HEIGHT_def
        sum_list_replicate)
qed

lemma stage_dispatch:
  "getPointsForStage env (stageValue s) k0 =
     (case s of
        TREE \<Rightarrow> generateTreePoints env k0
      | HAPPY_NEW_YEAR \<Rightarrow> generateTextPoints env HAPPY_TEXT (1, 0.8, 0.2) k0
      | _ \<Rightarrow> generateTextPoints env (utf16 (stageValue s)) (0.4, 0.6, 1.0) k0)"
  by (cases s) (simp_all add: getPointsForStage_def)

section \<open>Per-frame update: properties of the loops\<close>

lemma nth_list_update_total:
  "xs[i := v] ! j = (if i = j \<and> i < length xs then v else xs ! j)"
  by (cases "i < length xs") (simp_all add: nth_list_update list_update_beyond)

lemma animateParticle_length:
  "length (fst (animateParticle time randoms targets targetCols i buf)) = length (fst buf)"
  "length (snd (animateParticle time randoms targets targetCols i buf)) = length (snd buf)"
  by (simp_all add: animateParticle_def Let_def split_def)

lemma animateLoop_length:
  "length (fst (animateLoop time randoms targets targetCols buf n)) = length (fst buf)
   \<and> length (snd (animateLoop time randoms targets targetCols buf n)) = length (snd buf)"
  by (induction n) (simp_all add: animateParticle_length)

lemma animateParticle_colors:
  "snd (animateParticle time randoms targets targetCols i buf) ! j =
     (if j div 3 = i \<and> j < length (snd buf)
      then lerpStep (snd buf ! j) (targetCols ! j) else snd buf ! j)"
proof (cases "j div 3 = i")
  case True
  then have "j = i * 3 \<or> j = i * 3 + 1 \<or> j = i * 3 + 2"
    by presburger
  then show ?thesis
    using True
    by (elim disjE) (simp_all add: animateParticle_def Let_def split_def nth_list_update_total)
next
  case False
  then have "j \<noteq> i * 3" "j \<noteq> i * 3 + 1" "j \<noteq> i * 3 + 2"
    by presburger+
  then show ?thesis
    using False by (simp add: animateParticle_def Let_def split_def nth_list_update_total)
qed

lemma animateParticle_positions:
  "fst (animateParticle time randoms targets targetCols i buf) ! j =
     (if j div 3 = i \<and> j < length (fst buf)
      then lerpStep (fst buf ! j) (effectiveTarget time randoms targets j) else fst buf ! j)"
proof (cases "j div 3 = i")
  case True
  then have "j = i * 3 \<or> j = i * 3 + 1 \<or> j = i * 3 + 2"
    by presburger
  then show ?thesis
    using True channel_arith [of i]
    by (elim disjE)
      (simp_all add: animateParticle_def Let_def split_def nth_list_update_total effectiveTarget_def
        del: One_nat_def)
next
  case False
  then have "j \<noteq> i * 3" "j \<noteq> i * 3 + 1" "j \<noteq> i * 3 + 2"
    by presburger+
  then show ?thesis
    using False by (simp add: animateParticle_def Let_def split_def nth_list_update_total)
qed

lemma animateLoop_colors:
  "snd (animateLoop time randoms targets targetCols buf n) ! j =
     (if j div 3 < n \<and> j < length (snd buf)
      then lerpStep (snd buf ! j) (targetCols ! j) else snd buf ! j)"
proof (induction n)
  case 0
  then show ?case by simp
next
  case (Suc n)
  show ?case
    by (simp add: animateParticle_colors Suc.IH animateLoop_length less_Suc_eq)
qed

lemma animateLoop_positions:
  "fst (animateLoop time randoms targets targetCols buf n) ! j =
     (if j div 3 < n \<and> j < length (fst buf)
      then lerpStep (fst buf ! j) (effectiveTarget time randoms targets j) else fst buf ! j)"
proof (induction n)
  case 0
  then show ?case by simp
next
  case (Suc n)
  show ?case
    by (simp add: animateParticle_positions Suc.IH animateLoop_length less_Suc_eq)
qed

lemma animate_length:
  "length (fst (animate time randoms st buf)) = length (fst buf)
   \<and> length (snd (animate time randoms st buf)) = length (snd buf)"
  by (simp add: animate_def animateLoop_length split: option.splits)

lemma animate_colors:
  assumes "deref st (targetPositionsRef st) = Some targets"
    and "deref st (targetColorsRef st) = Some targetCols"
    and "j < particleCount * 3" and "j < length (snd buf)"
  shows "snd (animate time randoms st buf) ! j = lerpStep (snd buf ! j) (targetCols ! j)"
proof -
  have "j div 3 < particleCount" using assms(3) by simp
  then show ?thesis
    using assms by (simp add: animate_def animateLoop_colors)
qed

lemma animate_positions:
  assumes "deref st (targetPositionsRef st) = Some targets"
    and "deref st (targetColorsRef st) = Some targetCols"
    and "j < particleCount * 3" and "j < length (fst buf)"
  shows "fst (animate time randoms st buf) ! j
    = lerpStep (fst buf ! j) (effectiveTarget time randoms targets j)"
proof -
  have "j div 3 < particleCount" using assms(3) by simp
  then show ?thesis
    using assms by (simp add: animate_def animateLoop_positions)
qed

lemma animate_null:
  "deref st (targetPositionsRef st) = None \<or> deref st (targetColorsRef st) = None \<Longrightarrow>
   animate time randoms st buf = buf"
  by (auto simp add: animate_def split: option.splits)

lemma lerpStep_unit:
  assumes "0 \<le> live" "live \<le> 1" "0 \<le> target" "target \<le> 1"
  shows "0 \<le> lerpStep live target \<and> lerpStep live target \<le> 1"
proof -
  have "lerpStep live target = 0.92 * live + 0.08 * target"
    by (simp add: lerpStep_def lerpFactor_def field_simps)
  with assms show ?thesis by simp
qed

lemma animateFrames_length:
  "length (fst (animateFrames clock randoms st buf n)) = length (fst buf)
   \<and> length (snd (animateFrames clock randoms st buf n)) = length (snd buf)"
  by (induction n) (simp_all add: animate_length)

lemma geometric_below:
  assumes "0 \<le> d" and "0 < eps" and "frameBound d eps \<le> n"
  shows "0.92 ^ n * d < eps"
proof -
  have "23 * d / (2 * eps) \<le> real (frameBound d eps)"
    unfolding frameBound_def by (rule real_nat_ceiling_ge)
  also have "\<dots> \<le> real n"
    using assms(3) by simp
  finally have n: "23 * d \<le> real n * (2 * eps)"
    using assms(2) by (simp add: field_simps)
  have b: "1 + real n * (2 / 23) \<le> (1 + 2 / 23) ^ n"
    by (rule Bernoulli_inequality) simp
  have "(0.92::real) ^ n * (1 + 2 / 23) ^ n = (0.92 * (1 + 2 / 23)) ^ n"
    by (simp only: power_mult_distrib)
  also have "\<dots> = 1"
    by simp
  finally have p: "(0.92::real) ^ n * (1 + 2 / 23) ^ n = 1" .
  have pos: "0 \<le> (0.92::real) ^ n * d"
    using assms(1) by simp
  have "0.92 ^ n * d * (1 + real n * (2 / 23)) \<le> 0.92 ^ n * d * (1 + 2 / 23) ^ n"
    by (rule mult_left_mono [OF b pos])
  also have "\<dots> = d"
    using p by (simp add: mult.assoc mult.left_commute)
  also have "\<dots> < eps * (1 + real n * (2 / 23))"
    using n assms(2) by (simp add: field_simps)
  finally have "0.92 ^ n * d * (1 + real n * (2 / 23)) < eps * (1 + real n * (2 / 23))" .
  moreover have "0 < 1 + real n * (2 / 23 :: real)"
    by (simp add: add_pos_nonneg)
  ultimately show ?thesis
    by (simp only: mult_less_cancel_right_pos)
qed

lemma animate_unit:
  assumes "length colors = particleCount * 3" and "set colors \<subseteq> {0..1}"
    and "\<And>tc. deref st (targetColorsRef st) = Some tc \<Longrightarrow>
           length tc = particleCount * 3 \<and> set tc \<subseteq> {0..1}"
  shows "set (snd (animate time randoms st (positions, colors))) \<subseteq> {0..1}"
proof (cases "deref st (targetPositionsRef st) = None \<or> deref st (targetColorsRef st) = None")
  case True
  from animate_null [OF this] assms(2) show ?thesis by simp
next
  case False
  then obtain targets tc where d: "deref st (targetPositionsRef st) = Some targets"
    "deref st (targetColorsRef st) = Some tc"
    by auto
  from assms(3) [OF d(2)] have tc: "length tc = particleCount * 3" "set tc \<subseteq> {0..1}"
    by simp_all
  let ?new = "snd (animate time randoms st (positions, colors))"
  have len: "length ?new = particleCount * 3"
    using animate_length [of time randoms st "(positions, colors)"] assms(1) by simp
  show ?thesis
  proof
    fix v assume "v \<in> set ?new"
    then obtain j where j: "j < particleCount * 3" "v = ?new ! j"
      using len by (auto simp add: in_set_conv_nth)
    have c: "colors ! j \<in> {0..1}"
      using assms(1,2) j(1) by (metis nth_mem subsetD)
    have t: "tc ! j \<in> {0..1}"
      using tc j(1) by (metis nth_mem subsetD)
    have "?new ! j = lerpStep (colors ! j) (tc ! j)"
      using animate_colors [OF d j(1), of "(positions, colors)"] assms(1) j(1) by simp
    with lerpStep_unit [of "colors ! j" "tc ! j"] c t j(2) show "v \<in> {0..1}"
      by simp
  qed
qed

section \<open>Rounding to a binary format: properties\<close>

lemma roundEven_of_int: "roundEven (of_int k) = k"
  by (simp add: roundEven_def)

lemma roundEven_cases: "roundEven x = \<lfloor>x\<rfloor> \<or> roundEven x = \<lfloor>x\<rfloor> + 1"
  by (simp add: roundEven_def Let_def)

lemma roundEven_error: "\<bar>of_int (roundEven x) - x\<bar> \<le> 1 / 2"
proof -
  have "of_int \<lfloor>x\<rfloor> \<le> x" "x < of_int \<lfloor>x\<rfloor> + 1" by linarith+
  then show ?thesis
    by (auto simp add: roundEven_def Let_def)
qed

lemma roundEven_mono: "x \<le> y \<Longrightarrow> roundEven x \<le> roundEven y"
proof -
  assume xy: "x \<le> y"
  then have f: "\<lfloor>x\<rfloor> \<le> \<lfloor>y\<rfloor>" by (rule floor_mono)
  show ?thesis
  proof (cases "\<lfloor>x\<rfloor> = \<lfloor>y\<rfloor>")
    case True
    with xy show ?thesis
      by (auto simp add: roundEven_def Let_def)
  next
    case False
    with f have "\<lfloor>x\<rfloor> + 1 \<le> \<lfloor>y\<rfloor>" by simp
    moreover have "roundEven x \<le> \<lfloor>x\<rfloor> + 1" using roundEven_cases [of x] by auto
    moreover have "\<lfloor>y\<rfloor> \<le> roundEven y" using roundEven_cases [of y] by auto
    ultimately show ?thesis by linarith
  qed
qed

lemma roundEven_minus: "roundEven (- x) = - roundEven x"
proof (cases "x = of_int \<lfloor>x\<rfloor>")
  case True
  then obtain k where "x = of_int k" by metis
  then show ?thesis
    by (simp add: roundEven_of_int flip: of_int_minus)
next
  case False
  then have lt: "of_int \<lfloor>x\<rfloor> < x" "x < of_int \<lfloor>x\<rfloor> + 1" by linarith+
  have fl: "\<lfloor>- x\<rfloor> = - \<lfloor>x\<rfloor> - 1"
  proof (rule floor_unique)
    show "real_of_int (- \<lfloor>x\<rfloor> - 1) \<le> - x" using lt by linarith
    show "- x < real_of_int (- \<lfloor>x\<rfloor> - 1) + 1" using lt by linarith
  qed
  show ?thesis
    using lt unfolding roundEven_def Let_def fl
    by (auto simp add: algebra_simps)
qed

lemma two_powi_pos: "0 < (2::real) powi k"
  by simp

lemma binade_bounds:
  assumes "x \<noteq> 0"
  shows "2 powi (binade x) \<le> \<bar>x\<bar>" and "\<bar>x\<bar> < 2 powi (binade x + 1)"
proof -
  have pos: "0 < \<bar>x\<bar>" using assms by simp
  have one: "(1::real) < 2" by simp
  have "\<lfloor>log 2 \<bar>x\<bar>\<rfloor> = binade x" by (simp add: binade_def)
  with floor_log_eq_powr_iff [OF pos one, of "binade x"]
  have a: "2 powr real_of_int (binade x) \<le> \<bar>x\<bar>"
    and b: "\<bar>x\<bar> < 2 powr real_of_int (binade x + 1)"
    by simp_all
  show "2 powi (binade x) \<le> \<bar>x\<bar>"
    using a powr_real_of_int' [of 2 "binade x"] by simp
  show "\<bar>x\<bar> < 2 powi (binade x + 1)"
    using b powr_real_of_int' [of 2 "binade x + 1"] by simp
qed

lemma binade_eqI:
  assumes "2 powi k \<le> \<bar>x\<bar>" and "\<bar>x\<bar> < 2 powi (k + 1)"
  shows "binade x = k"
proof -
  have pos: "0 < \<bar>x\<bar>" using assms(1) two_powi_pos [of k] by linarith
  have one: "(1::real) < 2" by simp
  have "2 powr real_of_int k \<le> \<bar>x\<bar>"
    using assms(1) powr_real_of_int' [of 2 k] by simp
  moreover have "\<bar>x\<bar> < 2 powr real_of_int (k + 1)"
    using assms(2) powr_real_of_int' [of 2 "k + 1"] by simp
  ultimately have "\<lfloor>log 2 \<bar>x\<bar>\<rfloor> = k"
    using floor_log_eq_powr_iff [OF pos one, of k] by simp
  then show ?thesis by (simp add: binade_def)
qed

lemma binade_minus: "binade (- x) = binade x"
  by (simp add: binade_def)

lemma binade_mono:
  assumes "x \<noteq> 0" and "\<bar>x\<bar> \<le> \<bar>y\<bar>"
  shows "binade x \<le> binade y"
proof -
  have "0 < \<bar>x\<bar>" using assms(1) by simp
  then have "log 2 \<bar>x\<bar> \<le> log 2 \<bar>y\<bar>" using assms(2) by simp
  then show ?thesis unfolding binade_def by (rule floor_mono)
qed

lemma ulpAt_pos: "0 < ulpAt p emin x"
  by (simp add: ulpAt_def two_powi_pos)

lemma ulpAt_minus: "ulpAt p emin (- x) = ulpAt p emin x"
  by (simp add: ulpAt_def binade_minus)

lemma roundFloat_zero: "roundFloat p emin 0 = 0"
  by (simp add: roundFloat_def)

lemma roundFloat_minus: "roundFloat p emin (- x) = - roundFloat p emin x"
  by (simp add: roundFloat_def ulpAt_minus roundEven_minus)

lemma roundFloat_fixI:
  assumes "x / ulpAt p emin x = of_int k"
  shows "roundFloat p emin x = x"
proof (cases "x = 0")
  case True
  then show ?thesis by (simp add: roundFloat_def)
next
  case False
  have "x = of_int k * ulpAt p emin x"
    using assms ulpAt_pos [of p emin x] by (simp add: field_simps)
  then show ?thesis
    using False by (simp add: roundFloat_def assms roundEven_of_int)
qed

lemma roundFloat_error: "\<bar>roundFloat p emin x - x\<bar> \<le> ulpAt p emin x / 2"
proof (cases "x = 0")
  case True
  then show ?thesis using ulpAt_pos [of p emin x] by (simp add: roundFloat_def)
next
  case False
  let ?u = "ulpAt p emin x"
  have u: "0 < ?u" by (rule ulpAt_pos)
  have "roundFloat p emin x - x = (of_int (roundEven (x / ?u)) - x / ?u) * ?u"
    using False u by (simp add: roundFloat_def field_simps)
  then have "\<bar>roundFloat p emin x - x\<bar> = \<bar>of_int (roundEven (x / ?u)) - x / ?u\<bar> * ?u"
    using u by (simp add: abs_mult)
  also have "\<dots> \<le> 1 / 2 * ?u"
    using roundEven_error [of "x / ?u"] u by (intro mult_right_mono) simp_all
  finally show ?thesis by simp
qed

lemma ulpAt_le:
  assumes "x \<noteq> 0"
  shows "ulpAt p emin x \<le> max \<bar>x\<bar> (2 powi emin) * 2 powi (1 - int p)"
proof -
  have e: "(2::real) powi (max (binade x) emin) \<le> max \<bar>x\<bar> (2 powi emin)"
  proof (cases "binade x \<le> emin")
    case True
    then show ?thesis by (simp add: max_def)
  next
    case False
    with binade_bounds(1) [OF assms] show ?thesis by (simp add: max_def)
  qed
  have "max (binade x) emin - (int p - 1) = max (binade x) emin + (1 - int p)"
    by simp
  then have "ulpAt p emin x = 2 powi (max (binade x) emin + (1 - int p))"
    by (simp only: ulpAt_def)
  also have "\<dots> = 2 powi (max (binade x) emin) * 2 powi (1 - int p)"
    by (rule power_int_add) simp
  finally have "ulpAt p emin x = 2 powi (max (binade x) emin) * 2 powi (1 - int p)" .
  with e show ?thesis
    using two_powi_pos [of "1 - int p"] by (simp add: mult_right_mono)
qed

lemma roundFloat_rel_error:
  "\<bar>roundFloat p emin x - x\<bar> \<le> max \<bar>x\<bar> (2 powi emin) * 2 powi (- int p)"
proof (cases "x = 0")
  case True
  then show ?thesis
    using two_powi_pos [of emin] two_powi_pos [of "- int p"] by (simp add: roundFloat_def)
next
  case False
  have "(2::real) powi (1 + (- int p)) = 2 powi 1 * 2 powi (- int p)"
    by (rule power_int_add) simp
  then have h: "(2::real) powi (1 - int p) / 2 = 2 powi (- int p)"
    by simp
  have "\<bar>roundFloat p emin x - x\<bar> \<le> ulpAt p emin x / 2"
    by (rule roundFloat_error)
  also have "\<dots> \<le> max \<bar>x\<bar> (2 powi emin) * 2 powi (1 - int p) / 2"
    using ulpAt_le [OF False, of p emin] by simp
  also have "\<dots> = max \<bar>x\<bar> (2 powi emin) * 2 powi (- int p)"
    using h by simp
  finally show ?thesis .
qed

lemma two_powi_of_int: "0 \<le> n \<Longrightarrow> (2::real) powi n = of_int (2 ^ nat n)"
  by (simp add: power_int_nonneg_exp)

lemma two_powi_split: "(2::real) powi (a + b) = 2 powi a * 2 powi b"
  by (rule power_int_add) simp

lemma two_powi_mono: "a \<le> b \<Longrightarrow> (2::real) powi a \<le> 2 powi b"
  by (rule power_int_increasing) simp_all

lemma ulpAt_times:
  "ulpAt p emin x * 2 powi (int p - 1) = 2 powi (max (binade x) emin)"
proof -
  have "max (binade x) emin - (int p - 1) + (int p - 1) = max (binade x) emin" by simp
  then show ?thesis
    unfolding ulpAt_def two_powi_split [symmetric] by simp
qed

lemma roundFloat_nonneg:
  assumes "0 \<le> x"
  shows "0 \<le> roundFloat p emin x"
proof (cases "x = 0")
  case True
  then show ?thesis by (simp add: roundFloat_def)
next
  case False
  have "0 \<le> x / ulpAt p emin x"
    using assms ulpAt_pos [of p emin x] by simp
  from roundEven_mono [OF this] have "0 \<le> roundEven (x / ulpAt p emin x)"
    using roundEven_of_int [of 0] by simp
  then show ?thesis
    using False ulpAt_pos [of p emin x] by (simp add: roundFloat_def)
qed

lemma roundFloat_upper:
  assumes "0 < x" and "1 \<le> p"
  shows "roundFloat p emin x \<le> 2 powi (max (binade x) emin + 1)"
proof -
  let ?e = "max (binade x) emin" and ?u = "ulpAt p emin x"
  have u: "0 < ?u" by (rule ulpAt_pos)
  have x0: "x \<noteq> 0" using assms(1) by simp
  have "x < 2 powi (binade x + 1)"
    using binade_bounds(2) [OF x0] assms(1) by simp
  also have "\<dots> \<le> 2 powi (?e + 1)"
    by (rule two_powi_mono) simp
  finally have lt: "x < 2 powi (?e + 1)" .
  have top: "2 powi (?e + 1) = ?u * 2 powi (int p)"
  proof -
    have "?e + 1 = (?e - (int p - 1)) + int p" by simp
    then have "(2::real) powi (?e + 1) = 2 powi ((?e - (int p - 1)) + int p)" by simp
    also have "\<dots> = 2 powi (?e - (int p - 1)) * 2 powi (int p)" by (rule two_powi_split)
    finally show ?thesis by (simp add: ulpAt_def)
  qed
  have "x / ?u \<le> 2 powi (int p)"
    using lt top u by (simp add: field_simps)
  also have "(2::real) powi (int p) = of_int (2 ^ p)"
    by simp
  finally have "roundEven (x / ?u) \<le> 2 ^ p"
    using roundEven_mono [of "x / ?u" "of_int (2 ^ p)"] roundEven_of_int [of "2 ^ p"] by simp
  then have "of_int (roundEven (x / ?u)) \<le> (2::real) ^ p"
    by (metis of_int_le_iff of_int_numeral of_int_power)
  then have "of_int (roundEven (x / ?u)) * ?u \<le> 2 ^ p * ?u"
    using u by (simp add: mult_right_mono)
  then show ?thesis
    using x0 top by (simp add: roundFloat_def mult.commute)
qed

lemma roundFloat_lower:
  assumes "0 < x" and "1 \<le> p" and "emin \<le> binade x"
  shows "2 powi (binade x) \<le> roundFloat p emin x"
proof -
  let ?u = "ulpAt p emin x"
  have u: "0 < ?u" by (rule ulpAt_pos)
  have x0: "x \<noteq> 0" using assms(1) by simp
  have e: "max (binade x) emin = binade x" using assms(3) by simp
  have ge: "2 powi (binade x) \<le> x"
    using binade_bounds(1) [OF x0] assms(1) by simp
  have bot: "2 powi (binade x) = ?u * 2 powi (int p - 1)"
    using ulpAt_times [of p emin x] e by simp
  have "2 powi (int p - 1) \<le> x / ?u"
    using ge bot u by (simp add: field_simps)
  moreover have "(2::real) powi (int p - 1) = of_int (2 ^ nat (int p - 1))"
    using assms(2) by (intro two_powi_of_int) simp
  ultimately have "2 ^ nat (int p - 1) \<le> roundEven (x / ?u)"
    using roundEven_mono [of "of_int (2 ^ nat (int p - 1))" "x / ?u"]
      roundEven_of_int [of "2 ^ nat (int p - 1)"] by simp
  then have "(of_int (2 ^ nat (int p - 1)) :: real) \<le> of_int (roundEven (x / ?u))"
    by (simp only: of_int_le_iff)
  then have "of_int (2 ^ nat (int p - 1)) * ?u \<le> of_int (roundEven (x / ?u)) * ?u"
    using u by (simp add: mult_right_mono)
  moreover have "(of_int (2 ^ nat (int p - 1)) :: real) * ?u = 2 powi (binade x)"
    using bot \<open>(2::real) powi (int p - 1) = of_int (2 ^ nat (int p - 1))\<close>
    by (simp add: mult.commute)
  ultimately show ?thesis
    using x0 by (simp add: roundFloat_def)
qed

lemma roundFloat_mono_pos:
  assumes "0 < x" and "x \<le> y" and "1 \<le> p"
  shows "roundFloat p emin x \<le> roundFloat p emin y"
proof -
  have y: "0 < y" using assms by simp
  have b: "binade x \<le> binade y"
    using assms by (intro binade_mono) simp_all
  let ?ex = "max (binade x) emin" and ?ey = "max (binade y) emin"
  have e: "?ex \<le> ?ey" using b by simp
  show ?thesis
  proof (cases "?ex = ?ey")
    case True
    then have u: "ulpAt p emin x = ulpAt p emin y" by (simp add: ulpAt_def)
    have "x / ulpAt p emin y \<le> y / ulpAt p emin y"
      using assms(2) ulpAt_pos [of p emin y] by (simp add: divide_right_mono)
    from roundEven_mono [OF this]
    have "(of_int (roundEven (x / ulpAt p emin y)) :: real)
        \<le> of_int (roundEven (y / ulpAt p emin y))"
      by simp
    then show ?thesis
      using assms(1) y u ulpAt_pos [of p emin y] by (simp add: roundFloat_def mult_right_mono)
  next
    case False
    with e have lt: "?ex < ?ey" by linarith
    then have by': "emin \<le> binade y" "?ey = binade y" by linarith+
    have "roundFloat p emin x \<le> 2 powi (?ex + 1)"
      by (rule roundFloat_upper [OF assms(1,3)])
    also have "\<dots> \<le> 2 powi (binade y)"
    proof (rule two_powi_mono)
      show "?ex + 1 \<le> binade y" using lt by' by linarith
    qed
    also have "\<dots> \<le> roundFloat p emin y"
      by (rule roundFloat_lower [OF y assms(3) by'(1)])
    finally show ?thesis .
  qed
qed

lemma roundFloat_mono:
  assumes "x \<le> y" and "1 \<le> p"
  shows "roundFloat p emin x \<le> roundFloat p emin y"
proof -
  consider "0 < x" | "x \<le> 0" "0 \<le> y" | "y < 0" by linarith
  then show ?thesis
  proof cases
    case 1
    then show ?thesis by (rule roundFloat_mono_pos [OF _ assms])
  next
    case 2
    have "0 \<le> roundFloat p emin (- x)" using 2(1) by (intro roundFloat_nonneg) simp
    then have "roundFloat p emin x \<le> 0" by (simp add: roundFloat_minus)
    also have "0 \<le> roundFloat p emin y" using 2(2) by (rule roundFloat_nonneg)
    finally show ?thesis .
  next
    case 3
    have "roundFloat p emin (- y) \<le> roundFloat p emin (- x)"
      using 3 assms by (intro roundFloat_mono_pos) simp_all
    then show ?thesis by (simp add: roundFloat_minus)
  qed
qed

lemma two_powi_lessD: "(2::real) powi a < 2 powi b \<Longrightarrow> a < b"
  using two_powi_mono [of b a] by (cases "a < b") simp_all

lemma roundFloat_grid:
  assumes "x \<noteq> 0"
  shows "roundFloat p emin x = of_int (roundEven (x / ulpAt p emin x)) * ulpAt p emin x"
  using assms by (simp add: roundFloat_def)

lemma roundFloat_fix_multiple:
  assumes "x = of_int k * 2 powi g" and "max (binade x) emin - (int p - 1) \<le> g"
  shows "roundFloat p emin x = x"
proof -
  let ?n = "g - (max (binade x) emin - (int p - 1))"
  have n: "0 \<le> ?n" using assms(2) by simp
  have "g = (max (binade x) emin - (int p - 1)) + ?n" by simp
  then have "(2::real) powi g = 2 powi ((max (binade x) emin - (int p - 1)) + ?n)" by simp
  also have "\<dots> = ulpAt p emin x * 2 powi ?n"
    unfolding ulpAt_def by (rule two_powi_split)
  also have "\<dots> = ulpAt p emin x * of_int (2 ^ nat ?n)"
    using two_powi_of_int [OF n] by simp
  finally have "x = of_int k * (ulpAt p emin x * of_int (2 ^ nat ?n))"
    using assms(1) by simp
  then have "x / ulpAt p emin x = of_int (k * 2 ^ nat ?n)"
    using ulpAt_pos [of p emin x] by (simp add: field_simps)
  then show ?thesis by (rule roundFloat_fixI)
qed

lemma roundFloat_idem_pos:
  assumes "0 < x" and "1 \<le> p"
  shows "roundFloat p emin (roundFloat p emin x) = roundFloat p emin x"
proof -
  let ?r = "roundFloat p emin x" and ?e = "max (binade x) emin"
  let ?k = "roundEven (x / ulpAt p emin x)"
  have x0: "x \<noteq> 0" using assms(1) by simp
  have r: "?r = of_int ?k * 2 powi (?e - (int p - 1))"
    using roundFloat_grid [OF x0, of p emin] by (simp add: ulpAt_def)
  have r0: "0 \<le> ?r" using assms(1) by (intro roundFloat_nonneg) simp
  have up: "?r \<le> 2 powi (?e + 1)" by (rule roundFloat_upper [OF assms])
  show ?thesis
  proof (cases "?r = 0")
    case True
    then show ?thesis by (simp add: roundFloat_zero)
  next
    case False
    show ?thesis
    proof (cases "?r = 2 powi (?e + 1)")
      case True
      have b: "binade ?r = ?e + 1"
      proof (rule binade_eqI)
        show "2 powi (?e + 1) \<le> \<bar>?r\<bar>" using True by simp
        have "(2::real) powi (?e + 1) < 2 powi (?e + 1 + 1)"
          by (rule power_int_strict_increasing) simp_all
        then show "\<bar>?r\<bar> < 2 powi (?e + 1 + 1)" using True by simp
      qed
      have "?r = of_int 1 * 2 powi (?e + 1)" using True by simp
      moreover have "max (binade ?r) emin - (int p - 1) \<le> ?e + 1"
        unfolding b using assms(2) by simp
      ultimately show ?thesis by (rule roundFloat_fix_multiple)
    next
      case ne: False
      with up have lt: "?r < 2 powi (?e + 1)" by simp
      have "2 powi (binade ?r) \<le> \<bar>?r\<bar>" by (rule binade_bounds(1) [OF False])
      with lt r0 have "(2::real) powi (binade ?r) < 2 powi (?e + 1)" by simp
      then have "binade ?r < ?e + 1"
        by (rule two_powi_lessD)
      then have "max (binade ?r) emin - (int p - 1) \<le> ?e - (int p - 1)" by simp
      with r show ?thesis by (rule roundFloat_fix_multiple)
    qed
  qed
qed

lemma roundFloat_idem:
  assumes "1 \<le> p"
  shows "roundFloat p emin (roundFloat p emin x) = roundFloat p emin x"
proof -
  consider "0 < x" | "x = 0" | "0 < - x" by linarith
  then show ?thesis
  proof cases
    case 1
    then show ?thesis by (rule roundFloat_idem_pos [OF _ assms])
  next
    case 2
    then show ?thesis by (simp add: roundFloat_zero)
  next
    case 3
    from roundFloat_idem_pos [OF 3 assms, of emin] show ?thesis
      by (simp add: roundFloat_minus)
  qed
qed

lemma roundFloat_widen:
  assumes "roundFloat p emin x = x" and "p \<le> p'" and "emin' \<le> emin"
  shows "roundFloat p' emin' x = x"
proof (cases "x = 0")
  case True
  then show ?thesis by (simp add: roundFloat_zero)
next
  case False
  have "x = of_int (roundEven (x / ulpAt p emin x)) * 2 powi (max (binade x) emin - (int p - 1))"
    using roundFloat_grid [OF False, of p emin] assms(1) by (simp add: ulpAt_def)
  moreover have "max (binade x) emin' - (int p' - 1) \<le> max (binade x) emin - (int p - 1)"
    using assms(2,3) by simp
  ultimately show ?thesis by (rule roundFloat_fix_multiple)
qed

lemma roundFloat_multiple:
  assumes "roundFloat p emin x = x"
  shows "\<exists>k. x = of_int k * 2 powi (emin - (int p - 1))"
proof (cases "x = 0")
  case True
  then have "x = of_int 0 * 2 powi (emin - (int p - 1))" by simp
  then show ?thesis by blast
next
  case False
  let ?n = "max (binade x) emin - emin"
  have n: "0 \<le> ?n" by simp
  have "max (binade x) emin - (int p - 1) = ?n + (emin - (int p - 1))" by simp
  then have "ulpAt p emin x = 2 powi (?n + (emin - (int p - 1)))"
    by (simp only: ulpAt_def)
  also have "\<dots> = 2 powi ?n * 2 powi (emin - (int p - 1))" by (rule two_powi_split)
  also have "\<dots> = of_int (2 ^ nat ?n) * 2 powi (emin - (int p - 1))"
    using two_powi_of_int [OF n] by simp
  finally have "x = of_int (roundEven (x / ulpAt p emin x) * 2 ^ nat ?n)
      * 2 powi (emin - (int p - 1))"
    using roundFloat_grid [OF False, of p emin] assms by simp
  then show ?thesis by blast
qed

lemma float32_gap:
  assumes "fround a = a" and "fround b = b" and "a < b"
  shows "2 powi (- 149) \<le> b - a"
proof -
  from roundFloat_multiple [of 24 "- 126" a] assms(1)
  obtain k where k: "a = of_int k * 2 powi (- 149)" by (auto simp add: fround_def)
  from roundFloat_multiple [of 24 "- 126" b] assms(2)
  obtain l where l: "b = of_int l * 2 powi (- 149)" by (auto simp add: fround_def)
  have u: "(0::real) < 2 powi (- 149)" by (rule two_powi_pos)
  have "of_int k * 2 powi (- 149) < (of_int l :: real) * 2 powi (- 149)"
    using assms(3) k l by simp
  then have "(of_int k :: real) < of_int l"
    using u by (simp only: mult_less_cancel_right_pos)
  then have "k + 1 \<le> l" by simp
  then have "(of_int k :: real) + 1 \<le> of_int l"
    by (metis of_int_1 of_int_add of_int_le_iff)
  then have "(of_int k + 1) * 2 powi (- 149) \<le> (of_int l :: real) * 2 powi (- 149)"
    using u by (simp only: mult_le_cancel_right_pos)
  then show ?thesis
    unfolding k l by (simp add: algebra_simps)
qed

lemma float32_is_double:
  assumes "fround x = x"
  shows "dround x = x"
proof -
  have a: "roundFloat 24 (- 126) x = x" using assms by (simp add: fround_def)
  have b: "(24::nat) \<le> 53" by simp
  have c: "(- 1022 :: int) \<le> - 126" by simp
  show ?thesis unfolding dround_def by (rule roundFloat_widen [OF a b c])
qed

lemma dround_minus: "dround (- x) = - dround x"
  by (simp add: dround_def roundFloat_minus)

lemma fround_minus: "fround (- x) = - fround x"
  by (simp add: fround_def roundFloat_minus)

lemma dround_mono: "x \<le> y \<Longrightarrow> dround x \<le> dround y"
  unfolding dround_def by (rule roundFloat_mono) simp_all

lemma fround_mono: "x \<le> y \<Longrightarrow> fround x \<le> fround y"
  unfolding fround_def by (rule roundFloat_mono) simp_all

lemma fround_idem: "fround (fround x) = fround x"
  unfolding fround_def by (rule roundFloat_idem) simp

lemma dround_error: "\<bar>dround x - x\<bar> \<le> max \<bar>x\<bar> (2 powi (- 1022)) * 2 powi (- 53)"
  unfolding dround_def using roundFloat_rel_error [of 53 "- 1022" x] by simp

lemma fround_error: "\<bar>fround x - x\<bar> \<le> max \<bar>x\<bar> (2 powi (- 126)) * 2 powi (- 24)"
  unfolding fround_def using roundFloat_rel_error [of 24 "- 126" x] by simp

lemma lerpStepFloat32_minus:
  "lerpStepFloat32 (- live) (- target) = - lerpStepFloat32 live target"
proof -
  let ?c = lerpFactorDouble
  have "lerpStepFloat32 (- live) (- target)
      = fround (dround (- live + dround (dround (- (target - live)) * ?c)))"
    by (simp add: lerpStepFloat32_def)
  also have "\<dots> = fround (dround (- live + dround (- (dround (target - live) * ?c))))"
    by (simp only: dround_minus mult_minus_left)
  also have "\<dots> = fround (dround (- (live + dround (dround (target - live) * ?c))))"
    by (simp only: dround_minus minus_add_distrib)
  also have "\<dots> = - lerpStepFloat32 live target"
    by (simp only: dround_minus fround_minus lerpStepFloat32_def)
  finally show ?thesis .
qed

lemma roundFloat_eval:
  assumes "2 powi k \<le> \<bar>x\<bar>" and "\<bar>x\<bar> < 2 powi (k + 1)" and "emin \<le> k"
  shows "roundFloat p emin x
    = of_int (roundEven (x / 2 powi (k - (int p - 1)))) * 2 powi (k - (int p - 1))"
proof -
  have b: "binade x = k" by (rule binade_eqI [OF assms(1,2)])
  have "x \<noteq> 0"
  proof
    assume "x = 0"
    with assms(1) two_powi_pos [of k] show False by simp
  qed
  then show ?thesis
    using assms(3) by (simp add: roundFloat_def ulpAt_def b max_def)
qed

lemma lerpFactorDouble_value: "lerpFactorDouble = 5764607523034235 / 2 ^ 56"
proof -
  have "dround (0.08::real)
      = of_int (roundEven (0.08 / 2 powi (- 4 - (int 53 - 1)))) * 2 powi (- 4 - (int 53 - 1))"
    unfolding dround_def by (rule roundFloat_eval) simp_all
  also have "\<dots> = 5764607523034235 / 2 ^ 56"
    by (simp add: roundEven_def Let_def)
  finally show ?thesis by (simp add: lerpFactorDouble_def lerpFactor_def)
qed

lemma p53: "(2::real) powi (- 53) = 1 / 2 ^ 53"
  by (simp add: power_int_minus field_simps)

lemma p24: "(2::real) powi (- 24) = 1 / 2 ^ 24"
  by (simp add: power_int_minus field_simps)

lemma dround_zero: "dround 0 = 0"
  by (simp add: dround_def roundFloat_zero)

lemma dround_normal:
  assumes "2 powi (- 1022) \<le> \<bar>x\<bar>"
  shows "\<bar>dround x - x\<bar> \<le> \<bar>x\<bar> / 2 ^ 53"
proof -
  have "max \<bar>x\<bar> (2 powi (- 1022)) = \<bar>x\<bar>" using assms by (rule max_absorb1)
  with dround_error [of x] have "\<bar>dround x - x\<bar> \<le> \<bar>x\<bar> * 2 powi (- 53)" by (simp only:)
  then show ?thesis by (simp only: p53) simp
qed

lemma dround_bounded:
  assumes "\<bar>x\<bar> \<le> M" and "2 powi (- 126) \<le> M"
  shows "\<bar>dround x - x\<bar> \<le> M / 2 ^ 53"
proof -
  have "(2::real) powi (- 1022) \<le> 2 powi (- 126)" by (rule two_powi_mono) simp
  then have "2 powi (- 1022) \<le> M" using assms(2) by (rule order_trans)
  with assms(1) have "max \<bar>x\<bar> (2 powi (- 1022)) \<le> M" by (rule max.boundedI)
  then have "max \<bar>x\<bar> (2 powi (- 1022)) * 2 powi (- 53) \<le> M * 2 powi (- 53)"
    by (rule mult_right_mono) (rule less_imp_le, rule two_powi_pos)
  with dround_error [of x] have "\<bar>dround x - x\<bar> \<le> M * 2 powi (- 53)"
    by (rule order_trans)
  then show ?thesis by (simp only: p53) simp
qed

lemma fround_bounded:
  assumes "\<bar>x\<bar> \<le> M" and "2 powi (- 126) \<le> M"
  shows "\<bar>fround x - x\<bar> \<le> M / 2 ^ 24"
proof -
  have "max \<bar>x\<bar> (2 powi (- 126)) \<le> M" using assms(1,2) by (rule max.boundedI)
  then have "max \<bar>x\<bar> (2 powi (- 126)) * 2 powi (- 24) \<le> M * 2 powi (- 24)"
    by (rule mult_right_mono) (rule less_imp_le, rule two_powi_pos)
  with fround_error [of x] have "\<bar>fround x - x\<bar> \<le> M * 2 powi (- 24)"
    by (rule order_trans)
  then show ?thesis by (simp only: p24) simp
qed

lemma lerpStepFloat32_fix:
  assumes "fround a = a"
  shows "lerpStepFloat32 a a = a"
  using assms by (simp add: lerpStepFloat32_def dround_zero float32_is_double)

lemma lerpStepFloat32_up:
  assumes fa: "fround a = a" and ft: "fround t = t" and lt: "a < t"
    and ba: "\<bar>a\<bar> \<le> M" and bt: "\<bar>t\<bar> \<le> M" and bm: "2 powi (- 126) \<le> M"
  shows "a \<le> lerpStepFloat32 a t \<and> lerpStepFloat32 a t \<le> t
    \<and> \<bar>lerpStepFloat32 a t - (a + (t - a) * 0.08)\<bar> \<le> M * (1 / 2 ^ 24 + 1 / 2 ^ 52)"
proof -
  define d where "d = t - a"
  define d1 where "d1 = dround d"
  define x2 where "x2 = d1 * (5764607523034235 / 2 ^ 56)"
  define d2 where "d2 = dround x2"
  define d3 where "d3 = dround (a + d2)"
  have step: "lerpStepFloat32 a t = fround d3"
    by (simp add: lerpStepFloat32_def lerpFactorDouble_value d3_def d2_def x2_def d1_def d_def)
  have gap: "2 powi (- 149) \<le> d"
    unfolding d_def by (rule float32_gap [OF fa ft lt])
  have dpos: "0 < d" using lt by (simp add: d_def)
  have d2M: "d \<le> 2 * M" using ba bt by (simp add: d_def)
  have "(2::real) powi (- 1022) \<le> 2 powi (- 149)" by (rule two_powi_mono) simp
  with gap have "2 powi (- 1022) \<le> d" by simp
  then have n1: "2 powi (- 1022) \<le> \<bar>d\<bar>" using dpos by simp
  have e1: "\<bar>d1 - d\<bar> \<le> d / 2 ^ 53"
    using dround_normal [OF n1] dpos by (simp add: d1_def)
  have e1a: "d - d / 2 ^ 53 \<le> d1" and e1b: "d1 \<le> d + d / 2 ^ 53"
    using e1 by (simp_all only: abs_le_iff) linarith+
  have x2lo: "d / 32 \<le> x2" using e1a dpos unfolding x2_def by simp
  have x2hi: "x2 \<le> d * (9 / 100)" using e1b dpos unfolding x2_def by simp
  have "(2::real) powi (- 1022) \<le> 2 powi (- 149 + - 5)" by (rule two_powi_mono) simp
  also have "\<dots> = 2 powi (- 149) * 2 powi (- 5)" by (rule two_powi_split)
  also have "\<dots> = 2 powi (- 149) / 32" by (simp add: power_int_minus)
  also have "\<dots> \<le> d / 32" using gap by simp
  finally have "2 powi (- 1022) \<le> x2" using x2lo by simp
  moreover have x2pos: "0 < x2" using x2lo dpos by simp
  ultimately have n2: "2 powi (- 1022) \<le> \<bar>x2\<bar>" by simp
  have e2: "\<bar>d2 - x2\<bar> \<le> x2 / 2 ^ 53"
    using dround_normal [OF n2] x2pos by (simp add: d2_def)
  have e2a: "x2 - x2 / 2 ^ 53 \<le> d2" and e2b: "d2 \<le> x2 + x2 / 2 ^ 53"
    using e2 by (simp_all only: abs_le_iff) linarith+
  have d2lo: "0 \<le> d2" using e2a x2pos by simp
  have d2hi: "d2 \<le> d" using e2b x2hi dpos by simp
  have s_lo: "a \<le> a + d2" using d2lo by simp
  have s_hi: "a + d2 \<le> t" using d2hi by (simp add: d_def)
  have d3lo: "a \<le> d3"
    using dround_mono [OF s_lo] float32_is_double [OF fa] by (simp add: d3_def)
  have d3hi: "d3 \<le> t"
    using dround_mono [OF s_hi] float32_is_double [OF ft] by (simp add: d3_def)
  have lo: "a \<le> fround d3" using fround_mono [OF d3lo] fa by simp
  have hi: "fround d3 \<le> t" using fround_mono [OF d3hi] ft by simp
  have sM: "\<bar>a + d2\<bar> \<le> M" using s_lo s_hi ba bt by simp
  have d3M: "\<bar>d3\<bar> \<le> M" using d3lo d3hi ba bt by simp
  have e3: "\<bar>d3 - (a + d2)\<bar> \<le> M / 2 ^ 53"
    unfolding d3_def by (rule dround_bounded [OF sM bm])
  have e4: "\<bar>fround d3 - d3\<bar> \<le> M / 2 ^ 24"
    by (rule fround_bounded [OF d3M bm])
  have u1: "d2 - d * 0.08 \<le> d / 2 ^ 54" and u2: "- (d2 - d * 0.08) \<le> d / 2 ^ 54"
    using e1a e1b e2a e2b dpos unfolding x2_def by simp_all
  have e5: "\<bar>d2 - d * 0.08\<bar> \<le> d / 2 ^ 54"
    by (rule abs_leI [OF u1 u2])
  have "\<bar>fround d3 - (a + d * 0.08)\<bar> \<le> M / 2 ^ 24 + M / 2 ^ 53 + d / 2 ^ 54"
    using e3 e4 e5 by linarith
  also have "\<dots> \<le> M * (1 / 2 ^ 24 + 1 / 2 ^ 52)"
    using d2M dpos by (simp add: distrib_left)
  finally have "\<bar>fround d3 - (a + d * 0.08)\<bar> \<le> M * (1 / 2 ^ 24 + 1 / 2 ^ 52)" .
  then show ?thesis
    using lo hi unfolding step d_def by blast
qed

lemma lerpStepFloat32_step:
  assumes fa: "fround a = a" and ft: "fround t = t"
    and ba: "\<bar>a\<bar> \<le> M" and bt: "\<bar>t\<bar> \<le> M" and bm: "2 powi (- 126) \<le> M"
  shows "min a t \<le> lerpStepFloat32 a t \<and> lerpStepFloat32 a t \<le> max a t
    \<and> \<bar>lerpStepFloat32 a t - (a + (t - a) * 0.08)\<bar> \<le> roundingError M"
proof -
  have mpos: "0 < M" using bm two_powi_pos [of "- 126"] by linarith
  consider "a < t" | "a = t" | "t < a" by linarith
  then show ?thesis
  proof cases
    case 1
    from lerpStepFloat32_up [OF fa ft 1 ba bt bm] 1 show ?thesis
      by (simp add: roundingError_def min_def max_def)
  next
    case 2
    have "0 \<le> roundingError M" using mpos by (simp add: roundingError_def)
    then show ?thesis using 2 lerpStepFloat32_fix [OF fa] by simp
  next
    case 3
    have fa': "fround (- a) = - a" and ft': "fround (- t) = - t"
      using fa ft by (simp_all add: fround_minus)
    have lt: "- a < - t" using 3 by simp
    have ba': "\<bar>- a\<bar> \<le> M" and bt': "\<bar>- t\<bar> \<le> M" using ba bt by simp_all
    from lerpStepFloat32_up [OF fa' ft' lt ba' bt' bm]
    have l: "- a \<le> - lerpStepFloat32 a t" and h: "- lerpStepFloat32 a t \<le> - t"
      and e: "\<bar>- lerpStepFloat32 a t - (- a + (- t - - a) * 0.08)\<bar>
          \<le> M * (1 / 2 ^ 24 + 1 / 2 ^ 52)"
      by (simp_all only: lerpStepFloat32_minus)
    have "- x - (- a + (- t - - a) * c) = - (x - (a + (t - a) * c))" for x c :: real
      by (simp add: algebra_simps)
    then have "- lerpStepFloat32 a t - (- a + (- t - - a) * 0.08)
        = - (lerpStepFloat32 a t - (a + (t - a) * 0.08))" .
    with e have "\<bar>lerpStepFloat32 a t - (a + (t - a) * 0.08)\<bar> \<le> roundingError M"
      by (simp only: abs_minus_cancel roundingError_def)
    then show ?thesis using l h 3 by (simp add: min_def max_def)
  qed
qed

lemma lerpStepFloat32_float: "fround (lerpStepFloat32 a t) = lerpStepFloat32 a t"
  by (simp add: lerpStepFloat32_def fround_idem)

lemma lerpStepFloat32_distance:
  assumes fa: "fround a = a" and ft: "fround t = t"
    and ba: "\<bar>a\<bar> \<le> M" and bt: "\<bar>t\<bar> \<le> M" and bm: "2 powi (- 126) \<le> M"
  shows "\<bar>lerpStepFloat32 a t - t\<bar> \<le> 0.92 * \<bar>a - t\<bar> + roundingError M"
    and "\<bar>lerpStepFloat32 a t - t\<bar> \<le> \<bar>a - t\<bar>"
    and "\<bar>lerpStepFloat32 a t\<bar> \<le> M"
proof -
  from lerpStepFloat32_step [OF assms]
  have s1: "min a t \<le> lerpStepFloat32 a t" and s2: "lerpStepFloat32 a t \<le> max a t"
    and s3: "\<bar>lerpStepFloat32 a t - (a + (t - a) * 0.08)\<bar> \<le> roundingError M"
    by blast+
  have "a + (t - a) * 0.08 - t = 0.92 * (a - t)" by (simp add: field_simps)
  then have "\<bar>a + (t - a) * 0.08 - t\<bar> = 0.92 * \<bar>a - t\<bar>"
    by (simp only: abs_mult) simp
  with s3 show "\<bar>lerpStepFloat32 a t - t\<bar> \<le> 0.92 * \<bar>a - t\<bar> + roundingError M"
    by linarith
  from s1 s2 show "\<bar>lerpStepFloat32 a t - t\<bar> \<le> \<bar>a - t\<bar>"
    by linarith
  from s1 s2 ba bt show "\<bar>lerpStepFloat32 a t\<bar> \<le> M"
    by linarith
qed

lemma frames_invariant:
  assumes fa: "fround a = a" and ft: "fround t = t"
    and ba: "\<bar>a\<bar> \<le> M" and bt: "\<bar>t\<bar> \<le> M" and bm: "2 powi (- 126) \<le> M"
  shows "fround (((\<lambda>v. lerpStepFloat32 v t) ^^ n) a) = ((\<lambda>v. lerpStepFloat32 v t) ^^ n) a
    \<and> \<bar>((\<lambda>v. lerpStepFloat32 v t) ^^ n) a\<bar> \<le> M
    \<and> \<bar>((\<lambda>v. lerpStepFloat32 v t) ^^ n) a - t\<bar>
        \<le> 0.92 ^ n * \<bar>a - t\<bar> + stallRadius M * (1 - 0.92 ^ n)"
proof (induction n)
  case 0
  then show ?case using fa ba by simp
next
  case (Suc n)
  let ?v = "((\<lambda>v. lerpStepFloat32 v t) ^^ n) a"
  from Suc.IH have fv: "fround ?v = ?v" and bv: "\<bar>?v\<bar> \<le> M"
    and dv: "\<bar>?v - t\<bar> \<le> 0.92 ^ n * \<bar>a - t\<bar> + stallRadius M * (1 - 0.92 ^ n)"
    by blast+
  note d = lerpStepFloat32_distance [OF fv ft bv bt bm]
  define X where "X = 0.92 ^ n * \<bar>a - t\<bar> + stallRadius M * (1 - 0.92 ^ n)"
  have "\<bar>lerpStepFloat32 ?v t - t\<bar> \<le> 0.92 * X + roundingError M"
    using d(1) dv unfolding X_def [symmetric] by simp
  also have "\<dots> = 0.92 * (0.92 ^ n * \<bar>a - t\<bar> + stallRadius M * (1 - 0.92 ^ n))
      + roundingError M"
    by (simp only: X_def)
  also have "\<dots> = 0.92 ^ Suc n * \<bar>a - t\<bar> + stallRadius M * (1 - 0.92 ^ Suc n)"
    by (simp add: stallRadius_def algebra_simps)
  finally show ?case
    using d(3) by (simp add: lerpStepFloat32_float)
qed

section \<open>The rounded per-frame update: properties\<close>

lemma lerpStepFloat32_strict:
  assumes fa: "fround a = a" and ft: "fround t = t"
    and ba: "\<bar>a\<bar> \<le> M" and bt: "\<bar>t\<bar> \<le> M" and bm: "2 powi (- 126) \<le> M"
    and far: "stallRadius M < \<bar>a - t\<bar>"
  shows "\<bar>lerpStepFloat32 a t - t\<bar> < \<bar>a - t\<bar>"
proof -
  define D where "D = \<bar>a - t\<bar>"
  define L where "L = \<bar>lerpStepFloat32 a t - t\<bar>"
  have "roundingError M = 0.08 * stallRadius M"
    by (simp add: stallRadius_def)
  with far have "roundingError M < 0.08 * D"
    by (simp add: D_def)
  moreover have "L \<le> 0.92 * D + roundingError M"
    unfolding L_def D_def by (rule lerpStepFloat32_distance(1) [OF fa ft ba bt bm])
  ultimately have "L < D"
    by simp
  then show ?thesis
    by (simp only: L_def D_def)
qed

lemma funpow_fixed: "f x = x \<Longrightarrow> (f ^^ n) x = x"
  by (induction n) simp_all

lemma stallRadius_nonneg: "2 powi (- 126) \<le> M \<Longrightarrow> 0 \<le> stallRadius M"
proof -
  assume "2 powi (- 126) \<le> M"
  with two_powi_pos [of "- 126"] have "0 < M" by linarith
  then show ?thesis by (simp add: stallRadius_def roundingError_def)
qed

lemma frames_bound:
  assumes fa: "fround a = a" and ft: "fround t = t"
    and ba: "\<bar>a\<bar> \<le> M" and bt: "\<bar>t\<bar> \<le> M" and bm: "2 powi (- 126) \<le> M"
  shows "\<bar>((\<lambda>v. lerpStepFloat32 v t) ^^ n) a - t\<bar> \<le> 0.92 ^ n * \<bar>a - t\<bar> + stallRadius M"
proof -
  have p: "(0::real) \<le> 0.92 ^ n" by simp
  have "stallRadius M * (1 - 0.92 ^ n) \<le> stallRadius M * 1"
    using stallRadius_nonneg [OF bm] p by (intro mult_left_mono) simp_all
  with frames_invariant [OF assms, of n] show ?thesis
    by simp
qed

lemma frames_below:
  assumes fa: "fround a = a" and ft: "fround t = t"
    and ba: "\<bar>a\<bar> \<le> M" and bt: "\<bar>t\<bar> \<le> M" and bm: "2 powi (- 126) \<le> M"
    and eps: "stallRadius M < eps" and n: "frameBound \<bar>a - t\<bar> (eps - stallRadius M) \<le> n"
  shows "\<bar>((\<lambda>v. lerpStepFloat32 v t) ^^ n) a - t\<bar> < eps"
proof -
  have d: "0 \<le> \<bar>a - t\<bar>" by simp
  have e: "0 < eps - stallRadius M" using eps by simp
  have "0.92 ^ n * \<bar>a - t\<bar> < eps - stallRadius M"
    by (rule geometric_below [OF d e n])
  with frames_bound [OF fa ft ba bt bm, of n] show ?thesis
    by linarith
qed

lemma animateParticleFloat32_length:
  "length (fst (animateParticleFloat32 lib time randoms targets targetCols i buf))
     = length (fst buf)"
  "length (snd (animateParticleFloat32 lib time randoms targets targetCols i buf))
     = length (snd buf)"
  by (simp_all add: animateParticleFloat32_def Let_def split_def)

lemma animateLoopFloat32_length:
  "length (fst (animateLoopFloat32 lib time randoms targets targetCols buf n)) = length (fst buf)
   \<and> length (snd (animateLoopFloat32 lib time randoms targets targetCols buf n))
       = length (snd buf)"
  by (induction n) (simp_all add: animateParticleFloat32_length)

lemma animateParticleFloat32_colors:
  "snd (animateParticleFloat32 lib time randoms targets targetCols i buf) ! j =
     (if j div 3 = i \<and> j < length (snd buf)
      then lerpStepFloat32 (snd buf ! j) (targetCols ! j) else snd buf ! j)"
proof (cases "j div 3 = i")
  case True
  then have "j = i * 3 \<or> j = i * 3 + 1 \<or> j = i * 3 + 2"
    by presburger
  then show ?thesis
    using True
    by (elim disjE)
      (simp_all add: animateParticleFloat32_def Let_def split_def nth_list_update_total)
next
  case False
  then have "j \<noteq> i * 3" "j \<noteq> i * 3 + 1" "j \<noteq> i * 3 + 2"
    by presburger+
  then show ?thesis
    using False
    by (simp add: animateParticleFloat32_def Let_def split_def nth_list_update_total)
qed

lemma animateParticleFloat32_z:
  assumes "j mod 3 = 2"
  shows "fst (animateParticleFloat32 lib time randoms targets targetCols i buf) ! j =
     (if j div 3 = i \<and> j < length (fst buf)
      then lerpStepFloat32 (fst buf ! j) (targets ! j) else fst buf ! j)"
proof (cases "j div 3 = i")
  case True
  with assms have j: "j = i * 3 + 2"
    by presburger
  have n: "i * 3 + 2 \<noteq> i * 3" "i * 3 + 2 \<noteq> i * 3 + 1"
    by simp_all
  show ?thesis
    using True n unfolding j
    by (simp add: animateParticleFloat32_def Let_def split_def nth_list_update_total
        del: One_nat_def)
next
  case False
  then have "j \<noteq> i * 3" "j \<noteq> i * 3 + 1" "j \<noteq> i * 3 + 2"
    by presburger+
  then show ?thesis
    using False
    by (simp add: animateParticleFloat32_def Let_def split_def nth_list_update_total)
qed

lemma animateLoopFloat32_colors:
  "snd (animateLoopFloat32 lib time randoms targets targetCols buf n) ! j =
     (if j div 3 < n \<and> j < length (snd buf)
      then lerpStepFloat32 (snd buf ! j) (targetCols ! j) else snd buf ! j)"
proof (induction n)
  case 0
  then show ?case by simp
next
  case (Suc n)
  show ?case
    by (simp add: animateParticleFloat32_colors Suc.IH animateLoopFloat32_length less_Suc_eq)
qed

lemma animateLoopFloat32_z:
  assumes "j mod 3 = 2"
  shows "fst (animateLoopFloat32 lib time randoms targets targetCols buf n) ! j =
     (if j div 3 < n \<and> j < length (fst buf)
      then lerpStepFloat32 (fst buf ! j) (targets ! j) else fst buf ! j)"
proof (induction n)
  case 0
  then show ?case by simp
next
  case (Suc n)
  show ?case
    by (simp add: animateParticleFloat32_z [OF assms] Suc.IH animateLoopFloat32_length
        less_Suc_eq)
qed

lemma animateFloat32_length:
  "length (fst (animateFloat32 lib time randoms st buf)) = length (fst buf)
   \<and> length (snd (animateFloat32 lib time randoms st buf)) = length (snd buf)"
  by (simp add: animateFloat32_def animateLoopFloat32_length split: option.splits)

lemma animateFloat32_colors:
  assumes "deref st (targetPositionsRef st) = Some targets"
    and "deref st (targetColorsRef st) = Some targetCols"
    and "j < particleCount * 3" and "j < length (snd buf)"
  shows "snd (animateFloat32 lib time randoms st buf) ! j
    = lerpStepFloat32 (snd buf ! j) (targetCols ! j)"
proof -
  have "j div 3 < particleCount" using assms(3) by simp
  then show ?thesis
    using assms by (simp add: animateFloat32_def animateLoopFloat32_colors)
qed

lemma animateFloat32_z:
  assumes "deref st (targetPositionsRef st) = Some targets"
    and "deref st (targetColorsRef st) = Some targetCols"
    and "j < particleCount * 3" and "j < length (fst buf)" and "j mod 3 = 2"
  shows "fst (animateFloat32 lib time randoms st buf) ! j
    = lerpStepFloat32 (fst buf ! j) (targets ! j)"
proof -
  have "j div 3 < particleCount" using assms(3) by simp
  then show ?thesis
    using assms(1,2,4) by (simp add: animateFloat32_def animateLoopFloat32_z [OF assms(5)])
qed

lemma animateFramesFloat32_length:
  "length (fst (animateFramesFloat32 lib clock randoms st buf n)) = length (fst buf)
   \<and> length (snd (animateFramesFloat32 lib clock randoms st buf n)) = length (snd buf)"
  by (induction n) (simp_all add: animateFloat32_length)

lemma animateFramesFloat32_colors:
  assumes "deref st (targetPositionsRef st) = Some targets"
    and "deref st (targetColorsRef st) = Some targetCols"
    and "j < particleCount * 3" and "j < length (snd buf)"
  shows "snd (animateFramesFloat32 lib clock randoms st buf n) ! j
    = ((\<lambda>v. lerpStepFloat32 v (targetCols ! j)) ^^ n) (snd buf ! j)"
proof (induction n)
  case 0
  then show ?case by simp
next
  case (Suc n)
  have l: "j < length (snd (animateFramesFloat32 lib clock randoms st buf n))"
    using assms(4) by (simp add: animateFramesFloat32_length)
  show ?case
    using Suc.IH by (simp add: animateFloat32_colors [OF assms(1,2,3) l])
qed

lemma animateFramesFloat32_z:
  assumes "deref st (targetPositionsRef st) = Some targets"
    and "deref st (targetColorsRef st) = Some targetCols"
    and "j < particleCount * 3" and "j < length (fst buf)" and "j mod 3 = 2"
  shows "fst (animateFramesFloat32 lib clock randoms st buf n) ! j
    = ((\<lambda>v. lerpStepFloat32 v (targets ! j)) ^^ n) (fst buf ! j)"
proof (induction n)
  case 0
  then show ?case by simp
next
  case (Suc n)
  have l: "j < length (fst (animateFramesFloat32 lib clock randoms st buf n))"
    using assms(4) by (simp add: animateFramesFloat32_length)
  show ?case
    using Suc.IH by (simp add: animateFloat32_z [OF assms(1,2,3) l assms(5)])
qed

lemma fround_dyadic:
  assumes "2 powi k \<le> \<bar>x\<bar>" and "\<bar>x\<bar> < 2 powi (k + 1)" and "- 126 \<le> k"
    and "x / 2 powi (k - 23) = of_int m"
  shows "fround x = x"
proof -
  have "fround x = of_int (roundEven (x / 2 powi (k - (int 24 - 1)))) * 2 powi (k - (int 24 - 1))"
    unfolding fround_def by (rule roundFloat_eval [OF assms(1,2,3)])
  also have "\<dots> = of_int m * 2 powi (k - 23)"
    using assms(4) by (simp add: roundEven_of_int)
  also have "\<dots> = x"
    using assms(4) two_powi_pos [of "k - 23"] by (simp add: field_simps)
  finally show ?thesis .
qed

lemma fround_examples:
  "fround 0 = 0" "fround 1 = 1" "fround (1 / 2) = 1 / 2"
  "fround (1 / 2 + 6 / 2 ^ 24) = 1 / 2 + 6 / 2 ^ 24"
proof -
  show "fround 0 = 0" by (simp add: fround_def roundFloat_zero)
  show "fround 1 = 1"
    by (rule fround_dyadic [where k = 0 and m = "2 ^ 23"]) simp_all
  show "fround (1 / 2) = 1 / 2"
    by (rule fround_dyadic [where k = "- 1" and m = "2 ^ 23"]) simp_all
  show "fround (1 / 2 + 6 / 2 ^ 24) = 1 / 2 + 6 / 2 ^ 24"
    by (rule fround_dyadic [where k = "- 1" and m = "2 ^ 23 + 6"]) simp_all
qed

lemma lerpStepFloat32_stalled:
  "lerpStepFloat32 (1 / 2 + 6 / 2 ^ 24) (1 / 2) = 1 / 2 + 6 / 2 ^ 24"
proof -
  have d1: "dround (1 / 2 - (1 / 2 + 6 / 2 ^ 24)) = - (6 / 2 ^ 24)"
  proof -
    have "dround (- (6 / 2 ^ 24) :: real)
      = of_int (roundEven (- (6 / 2 ^ 24) / 2 powi (- 22 - (int 53 - 1))))
          * 2 powi (- 22 - (int 53 - 1))"
      unfolding dround_def by (rule roundFloat_eval) simp_all
    also have "\<dots> = - (6 / 2 ^ 24)"
      by (simp add: roundEven_def Let_def)
    finally show ?thesis by simp
  qed
  have d2: "dround (- (6 / 2 ^ 24) * (5764607523034235 / 2 ^ 56))
      = - (1080863910568919 / 2 ^ 75)"
  proof -
    let ?x = "- (6 / 2 ^ 24) * (5764607523034235 / 2 ^ 56) :: real"
    have "dround ?x
      = of_int (roundEven (?x / 2 powi (- 26 - (int 53 - 1)))) * 2 powi (- 26 - (int 53 - 1))"
      unfolding dround_def by (rule roundFloat_eval) simp_all
    also have "\<dots> = - (1080863910568919 / 2 ^ 75)"
      by (simp add: roundEven_def Let_def)
    finally show ?thesis .
  qed
  have d3: "dround (1 / 2 + 6 / 2 ^ 24 + - (1080863910568919 / 2 ^ 75))
      = 4503602590897930 / 2 ^ 53"
  proof -
    let ?x = "1 / 2 + 6 / 2 ^ 24 + - (1080863910568919 / 2 ^ 75) :: real"
    have "dround ?x
      = of_int (roundEven (?x / 2 powi (- 1 - (int 53 - 1)))) * 2 powi (- 1 - (int 53 - 1))"
      unfolding dround_def by (rule roundFloat_eval) simp_all
    also have "\<dots> = 4503602590897930 / 2 ^ 53"
      by (simp add: roundEven_def Let_def)
    finally show ?thesis .
  qed
  have f: "fround (4503602590897930 / 2 ^ 53) = 1 / 2 + 6 / 2 ^ 24"
  proof -
    let ?x = "4503602590897930 / 2 ^ 53 :: real"
    have "fround ?x
      = of_int (roundEven (?x / 2 powi (- 1 - (int 24 - 1)))) * 2 powi (- 1 - (int 24 - 1))"
      unfolding fround_def by (rule roundFloat_eval) simp_all
    also have "\<dots> = 1 / 2 + 6 / 2 ^ 24"
      by (simp add: roundEven_def Let_def)
    finally show ?thesis .
  qed
  show ?thesis
    unfolding lerpStepFloat32_def lerpFactorDouble_value d1 d2 d3 f ..
qed

text \<open>
  The rounded frame keeps the colour channels in the unit interval as the exact one
  does: a new value lies between the live value and the target.
\<close>

lemma lerpStepFloat32_unit:
  assumes "fround a = a" and "fround t = t" and "0 \<le> a" and "a \<le> 1" and "0 \<le> t" and "t \<le> 1"
  shows "0 \<le> lerpStepFloat32 a t \<and> lerpStepFloat32 a t \<le> 1"
proof -
  have b: "\<bar>a\<bar> \<le> 1" "\<bar>t\<bar> \<le> 1" using assms(3-6) by simp_all
  have m: "2 powi (- 126) \<le> (1::real)" by (simp add: power_int_minus)
  from lerpStepFloat32_step [OF assms(1,2) b m]
  have "min a t \<le> lerpStepFloat32 a t" and "lerpStepFloat32 a t \<le> max a t"
    by blast+
  with assms(3-6) show ?thesis by linarith
qed

lemma animateFloat32_unit:
  assumes "length colors = particleCount * 3"
    and "\<And>v. v \<in> set colors \<Longrightarrow> fround v = v \<and> 0 \<le> v \<and> v \<le> 1"
    and "deref st (targetPositionsRef st) = Some targets"
    and "deref st (targetColorsRef st) = Some tc"
    and "length tc = particleCount * 3"
    and "\<And>v. v \<in> set tc \<Longrightarrow> fround v = v \<and> 0 \<le> v \<and> v \<le> 1"
    and "w \<in> set (snd (animateFloat32 lib time randoms st (positions, colors)))"
  shows "fround w = w \<and> 0 \<le> w \<and> w \<le> 1"
proof -
  let ?new = "snd (animateFloat32 lib time randoms st (positions, colors))"
  have len: "length ?new = particleCount * 3"
    using animateFloat32_length [of lib time randoms st "(positions, colors)"] assms(1) by simp
  from assms(7) obtain j where j: "j < particleCount * 3" "w = ?new ! j"
    using len by (auto simp add: in_set_conv_nth)
  have c: "fround (colors ! j) = colors ! j \<and> 0 \<le> colors ! j \<and> colors ! j \<le> 1"
    using assms(1) j(1) by (intro assms(2)) simp
  have t: "fround (tc ! j) = tc ! j \<and> 0 \<le> tc ! j \<and> tc ! j \<le> 1"
    using assms(5) j(1) by (intro assms(6)) simp
  have "?new ! j = lerpStepFloat32 (colors ! j) (tc ! j)"
    using animateFloat32_colors [OF assms(3,4) j(1), of "(positions, colors)"] assms(1) j(1)
    by simp
  with lerpStepFloat32_unit [of "colors ! j" "tc ! j"] c t j(2) show ?thesis
    by (simp add: lerpStepFloat32_float)
qed

section \<open>Claims on the shape generator\<close>

text \<open>
  C7. For every particle index \<open>i\<close> below the capacity the tree point's height
  coordinate \<open>pt_y\<close> is \<open>treeHeight i\<close>, which lies in \<open>[-10, 10]\<close> and does not
  decrease as \<open>i\<close> grows. The point lies at distance \<open>treeRadius (treeHeight i)\<close> from
  the axis, and \<open>treeRadius\<close> does not increase with the height: it is 8 at the base
  (height -10) and 0 at the apex (height 10), and between 0 and 8 for every particle.
\<close>

theorem tree_height_and_radius:
  assumes "i < PARTICLE_COUNT" and "j < PARTICLE_COUNT" and "i \<le> j" and "h1 \<le> h2"
  shows "pt_y (fst (generateTreePoints env k0) ! i) = treeHeight i
       \<and> - 10 \<le> treeHeight i \<and> treeHeight i \<le> 10
       \<and> treeHeight i \<le> treeHeight j
       \<and> (pt_x (fst (generateTreePoints env k0) ! i))\<^sup>2
           + (pt_z (fst (generateTreePoints env k0) ! i))\<^sup>2 = (treeRadius (treeHeight i))\<^sup>2
       \<and> treeRadius (treeHeight j) \<le> treeRadius (treeHeight i)
       \<and> treeRadius h2 \<le> treeRadius h1
       \<and> 0 \<le> treeRadius (treeHeight i) \<and> treeRadius (treeHeight i) \<le> 8
       \<and> treeRadius (- 10) = 8 \<and> treeRadius 10 = 0"
proof -
  let ?c = "fst (treeColor (random env) (snd (treeLoop (random env) k0 i)))"
  have p: "fst (generateTreePoints env k0) ! i = treePoint i ?c"
    using assms(1) by (simp add: generateTreePoints_def treeLoop_nth)
  have b: "- 10 \<le> treeHeight i" "treeHeight i < 10"
    using treeHeight_bounds [OF assms(1)] by simp_all
  have m: "treeHeight i \<le> treeHeight j"
    by (rule treeHeight_mono [OF assms(3)])
  have r: "0 \<le> treeRadius (treeHeight i)" "treeRadius (treeHeight i) \<le> 8"
    using b by (simp_all add: treeRadius_def)
  have e: "treeRadius (- 10) = 8" "treeRadius 10 = 0"
    by (simp_all add: treeRadius_def)
  show ?thesis
    using b m r e treeRadius_antimono [OF m] treeRadius_antimono [OF assms(4)]
    by (simp add: p treePoint_fields)
qed

text \<open>
  The hypotheses of C7 at the particles 1000 and 3000 and the heights -5 and 5.
\<close>

theorem tree_height_and_radius_witness:
  "pt_y (fst (generateTreePoints blankBrowser 0) ! 1000) = - 5
   \<and> treeHeight 1000 = - 5 \<and> treeHeight 3000 = 5
   \<and> treeRadius (treeHeight 3000) \<le> treeRadius (treeHeight 1000)
   \<and> treeRadius 5 \<le> treeRadius (- 5)"
  using tree_height_and_radius [of 1000 3000 "- 5" 5 blankBrowser 0]
  by (simp add: PARTICLE_COUNT_def treeHeight_def)

text \<open>
  C4, as the code has it. The colour of tree particle \<open>i\<close> is \<open>treeColor\<close> at the
  cursor that the random sequence has reached before iteration \<open>i\<close>. With \<open>u\<close> the value
  at the cursor and \<open>v\<close> the next one, the colour is \<open>RED\<close> exactly when \<open>u > 0.95\<close>,
  \<open>GOLD\<close> exactly when \<open>u \<le> 0.95\<close> and \<open>v > 0.95\<close>, and the base \<open>GREEN\<close> exactly
  when both are at most 0.95. One value is drawn for a red particle and two for any
  other, and the next particle starts behind them. The three colours are distinct.
  For independent uniform draws on \<open>[0, 1)\<close> the red region \<open>(0.95, 1)\<close> has
  probability 0.05 and the gold region \<open>[0, 0.95] \<times> (0.95, 1)\<close> has 0.95 * 0.05 = 0.0475.
\<close>

theorem tree_colour_two_draws:
  assumes "i < PARTICLE_COUNT"
  shows "pt_color (fst (generateTreePoints env k0) ! i)
           = fst (treeColor (random env) (snd (treeLoop (random env) k0 i)))
       \<and> (fst (treeColor rnd k) = RED \<longleftrightarrow> rnd k > 0.95)
       \<and> (fst (treeColor rnd k) = GOLD \<longleftrightarrow> rnd k \<le> 0.95 \<and> rnd (k + 1) > 0.95)
       \<and> (fst (treeColor rnd k) = GREEN \<longleftrightarrow> rnd k \<le> 0.95 \<and> rnd (k + 1) \<le> 0.95)
       \<and> snd (treeColor rnd k) = k + (if rnd k > 0.95 then 1 else 2)
       \<and> snd (treeLoop (random env) k0 (Suc i))
           = snd (treeColor (random env) (snd (treeLoop (random env) k0 i)))
       \<and> GREEN = (0.1, 0.8, 0.2) \<and> RED = (1, 0.1, 0.1) \<and> GOLD = (1, 0.8, 0.1)
       \<and> GREEN \<noteq> RED \<and> GREEN \<noteq> GOLD \<and> RED \<noteq> GOLD"
proof -
  have "pt_color (fst (generateTreePoints env k0) ! i)
           = fst (treeColor (random env) (snd (treeLoop (random env) k0 i)))"
    using assms by (simp add: generateTreePoints_def treeLoop_nth treePoint_fields)
  moreover have "snd (treeColor rnd k) = k + (if rnd k > 0.95 then 1 else 2)"
    by (simp add: treeColor_def)
  moreover have "snd (treeLoop (random env) k0 (Suc i))
           = snd (treeColor (random env) (snd (treeLoop (random env) k0 i)))"
    by (simp add: split_def Let_def)
  moreover have "GREEN \<noteq> RED \<and> GREEN \<noteq> GOLD \<and> RED \<noteq> GOLD"
    by (simp add: GREEN_def RED_def GOLD_def)
  ultimately show ?thesis
    using treeColor_cases [of rnd k] by (simp add: GREEN_def RED_def GOLD_def)
qed

text \<open>
  The hypothesis of C4 at particle 0, with a random sequence whose second value is 0.96.
\<close>

theorem tree_colour_two_draws_witness:
  "pt_color (fst (generateTreePoints goldBrowser 0) ! 0) = GOLD
   \<and> snd (treeLoop (random goldBrowser) 0 (Suc 0)) = 2"
  using tree_colour_two_draws [of 0 goldBrowser 0 drawsSecondHigh 0]
  by (simp add: PARTICLE_COUNT_def goldBrowser_def drawsSecondHigh_def)

text \<open>
  C4 as stated fails: the colour is not decided by one draw. Two random sequences that
  both start with 0.5 give particle 0 the colours \<open>GOLD\<close> and \<open>GREEN\<close>, because the
  second draw (0.96 against 0.5) decides.
\<close>

theorem tree_colour_one_draw_counterexample:
  "random goldBrowser 0 = random blankBrowser 0
   \<and> pt_color (fst (generateTreePoints goldBrowser 0) ! 0) = GOLD
   \<and> pt_color (fst (generateTreePoints blankBrowser 0) ! 0) = GREEN
   \<and> GOLD \<noteq> GREEN"
proof -
  have n: "(0::nat) < PARTICLE_COUNT" by (simp add: PARTICLE_COUNT_def)
  have g: "generateTreePoints env 0 = treeLoop (random env) 0 PARTICLE_COUNT" for env
    by (simp add: generateTreePoints_def)
  show ?thesis
    unfolding g treeLoop_nth [OF n]
    by (simp add: treePoint_fields treeColor_def goldBrowser_def blankBrowser_def
        drawsSecondHigh_def drawsLow_def GOLD_def GREEN_def)
qed

text \<open>
  C8. When the canvas has a context and the scan finds at least one pixel, the text
  generator returns \<open>PARTICLE_COUNT\<close> points, and point \<open>i\<close> is built from the candidate
  pixel at position \<open>i mod length validPixels\<close> of the scan list: its \<open>x\<close> is
  \<open>(pixel_x - 100) * 0.2\<close> and its \<open>y\<close> is \<open>- (pixel_y - 50) * 0.2\<close>. So every particle
  is assigned a candidate, and a particle \<open>j\<close> at or beyond the candidate count has the
  \<open>x\<close> and \<open>y\<close> of particle \<open>j - length validPixels\<close>. The scan list is in raster
  order, and its members are the pixels at even columns and even rows of the canvas
  whose red byte exceeds 128.
\<close>

theorem text_points_cyclic:
  assumes "hasContext env"
    and "validPixels = scanPixels (imageData env (if length text > 2 then 30 else 80) text)"
    and "validPixels \<noteq> []"
    and "i < PARTICLE_COUNT"
  shows "length (fst (generateTextPoints env text colorBase k0)) = PARTICLE_COUNT
       \<and> fst (generateTextPoints env text colorBase k0) ! i
           = textPoint (validPixels ! (i mod length validPixels)) (random env (k0 + i)) colorBase
       \<and> validPixels ! (i mod length validPixels) \<in> set validPixels
       \<and> pt_x (fst (generateTextPoints env text colorBase k0) ! i)
           = (real (pixel_x (validPixels ! (i mod length validPixels))) - 100) * 0.2
       \<and> pt_y (fst (generateTextPoints env text colorBase k0) ! i)
           = - (real (pixel_y (validPixels ! (i mod length validPixels))) - 50) * 0.2
       \<and> (length validPixels \<le> j \<and> j < PARTICLE_COUNT \<longrightarrow>
            pt_x (fst (generateTextPoints env text colorBase k0) ! j)
              = pt_x (fst (generateTextPoints env text colorBase k0) ! (j - length validPixels))
            \<and> pt_y (fst (generateTextPoints env text colorBase k0) ! j)
              = pt_y (fst (generateTextPoints env text colorBase k0)
                  ! (j - length validPixels)))
       \<and> sorted_wrt rasterBefore validPixels
       \<and> (p \<in> set validPixels \<longleftrightarrow>
            even (pixel_x p) \<and> pixel_x p < CANVAS_WIDTH
            \<and> even (pixel_y p) \<and> pixel_y p < CANVAS_HEIGHT
            \<and> 128 < imageData env (if length text > 2 then 30 else 80) text
                       ((pixel_y p * CANVAS_WIDTH + pixel_x p) * 4))"
proof -
  let ?n = "length validPixels"
  let ?pts = "fst (generateTextPoints env text colorBase k0)"
  have g: "generateTextPoints env text colorBase k0
      = textLoop (random env) k0 validPixels colorBase PARTICLE_COUNT"
    using generateTextPoints_nonempty [of env "text" colorBase k0] assms(1,2,3) by simp
  have n: "0 < ?n" using assms(3) by simp
  have nth: "?pts ! m = textPoint (validPixels ! (m mod ?n)) (random env (k0 + m)) colorBase"
    if "m < PARTICLE_COUNT" for m
    using that by (simp add: g textLoop_nth)
  have len: "length ?pts = PARTICLE_COUNT"
    by (simp add: g length_textLoop)
  have mem: "validPixels ! (i mod ?n) \<in> set validPixels"
    using n by simp
  have rep: "pt_x (?pts ! j) = pt_x (?pts ! (j - ?n)) \<and> pt_y (?pts ! j) = pt_y (?pts ! (j - ?n))"
    if j: "?n \<le> j" "j < PARTICLE_COUNT"
  proof -
    have jm: "j - ?n < PARTICLE_COUNT" using j(2) by simp
    have md: "(j - ?n) mod ?n = j mod ?n"
      using j(1) by (simp add: le_mod_geq)
    show ?thesis
      using nth [OF j(2)] nth [OF jm] md by (simp add: textPoint_fields)
  qed
  have raster: "sorted_wrt rasterBefore validPixels"
    unfolding assms(2) by (rule sorted_scanPixels)
  have cand: "p \<in> set validPixels \<longleftrightarrow>
            even (pixel_x p) \<and> pixel_x p < CANVAS_WIDTH
            \<and> even (pixel_y p) \<and> pixel_y p < CANVAS_HEIGHT
            \<and> 128 < imageData env (if length text > 2 then 30 else 80) text
                       ((pixel_y p * CANVAS_WIDTH + pixel_x p) * 4)"
    unfolding assms(2) by (rule scanPixels_member)
  have "pt_x (?pts ! i) = (real (pixel_x (validPixels ! (i mod ?n))) - 100) * 0.2"
    and "pt_y (?pts ! i) = - (real (pixel_y (validPixels ! (i mod ?n))) - 50) * 0.2"
    using nth [OF assms(4)] by (simp_all add: textPoint_fields)
  with len mem nth [OF assms(4)] raster cand rep show ?thesis
    by blast
qed

text \<open>
  The hypotheses of C8 on the canvas with one white pixel: every particle sits on that
  pixel, at \<open>x = -20\<close>, \<open>y = 10\<close>.
\<close>

theorem text_points_cyclic_witness:
  "length (fst (generateTextPoints cornerBrowser (utf16 ''5'') (0.4, 0.6, 1.0) 0)) = PARTICLE_COUNT
   \<and> pt_x (fst (generateTextPoints cornerBrowser (utf16 ''5'') (0.4, 0.6, 1.0) 0) ! 7) = - 20
   \<and> pt_y (fst (generateTextPoints cornerBrowser (utf16 ''5'') (0.4, 0.6, 1.0) 0) ! 7) = 10
   \<and> pt_x (fst (generateTextPoints cornerBrowser (utf16 ''5'') (0.4, 0.6, 1.0) 0) ! 9)
       = pt_x (fst (generateTextPoints cornerBrowser (utf16 ''5'') (0.4, 0.6, 1.0) 0) ! 8)"
proof -
  have v: "scanPixels (imageData cornerBrowser (if length (utf16 ''5'') > 2 then 30 else 80)
      (utf16 ''5'')) = [\<lparr>pixel_x = 0, pixel_y = 0\<rparr>]"
    by (rule scanPixels_corner) (simp_all add: cornerBrowser_def cornerImage_def)
  have c: "hasContext cornerBrowser"
    by (simp add: cornerBrowser_def)
  have i: "7 < PARTICLE_COUNT"
    and j: "length [\<lparr>pixel_x = 0, pixel_y = 0\<rparr>] \<le> 9 \<and> 9 < PARTICLE_COUNT"
    by (simp_all add: PARTICLE_COUNT_def)
  have n: "[\<lparr>pixel_x = 0, pixel_y = 0\<rparr>] \<noteq> []"
    by simp
  from text_points_cyclic [OF c v [symmetric] n i, where j = 9 and colorBase = "(0.4, 0.6, 1.0)"
      and ?k0.0 = 0] j
  have "length (fst (generateTextPoints cornerBrowser (utf16 ''5'') (0.4, 0.6, 1.0) 0))
      = PARTICLE_COUNT"
    and "pt_x (fst (generateTextPoints cornerBrowser (utf16 ''5'') (0.4, 0.6, 1.0) 0) ! 7)
      = (real (pixel_x ([\<lparr>pixel_x = 0, pixel_y = 0\<rparr>]
            ! (7 mod length [\<lparr>pixel_x = 0, pixel_y = 0\<rparr>]))) - 100) * 0.2"
    and "pt_y (fst (generateTextPoints cornerBrowser (utf16 ''5'') (0.4, 0.6, 1.0) 0) ! 7)
      = - (real (pixel_y ([\<lparr>pixel_x = 0, pixel_y = 0\<rparr>]
            ! (7 mod length [\<lparr>pixel_x = 0, pixel_y = 0\<rparr>]))) - 50) * 0.2"
    and "pt_x (fst (generateTextPoints cornerBrowser (utf16 ''5'') (0.4, 0.6, 1.0) 0) ! 9)
      = pt_x (fst (generateTextPoints cornerBrowser (utf16 ''5'') (0.4, 0.6, 1.0) 0)
          ! (9 - length [\<lparr>pixel_x = 0, pixel_y = 0\<rparr>]))"
    by blast+
  then show ?thesis
    by simp
qed

text \<open>
  C1, as the code has it. The cloud that \<open>getPointsForStage\<close> returns has
  \<open>PARTICLE_COUNT\<close> = 4000 entries or none: 4000 for the tree stage and for every
  unrecognised stage, and for a text stage 4000 when the canvas has a context and the
  scan finds a pixel, and 0 otherwise. The capacity is restored by the caller: for a
  list \<open>points\<close> of any length, shorter or longer than the capacity, the two target
  buffers that \<open>installTargets\<close> builds are the normalised buffers of the
  specification, each of \<open>particleCount * 3\<close> channels; the stage effect installs the
  buffers of the cloud of its stage.
\<close>

theorem cloud_sizes:
  "(length (fst (getPointsForStage env stage k0)) = 0
      \<or> length (fst (getPointsForStage env stage k0)) = PARTICLE_COUNT)
   \<and> (stage \<notin> set [''5'', ''4'', ''3'', ''2'', ''1'', ''HAPPY_NEW_YEAR'']
        \<longrightarrow> length (fst (getPointsForStage env stage k0)) = PARTICLE_COUNT)
   \<and> (stage \<in> set [''5'', ''4'', ''3'', ''2'', ''1'']
        \<longrightarrow> getPointsForStage env stage k0
              = generateTextPoints env (utf16 stage) (0.4, 0.6, 1.0) k0)
   \<and> getPointsForStage env ''HAPPY_NEW_YEAR'' k0
        = generateTextPoints env HAPPY_TEXT (1, 0.8, 0.2) k0
   \<and> length (fst (generateTextPoints env text colorBase k0))
        = (if hasContext env
              \<and> scanPixels (imageData env (if length text > 2 then 30 else 80) text) \<noteq> []
           then PARTICLE_COUNT else 0)
   \<and> deref (installTargets points st) (targetPositionsRef (installTargets points st))
        = Some (normalized positionChannel points)
   \<and> deref (installTargets points st) (targetColorsRef (installTargets points st))
        = Some (normalized colorChannel points)
   \<and> length (normalized positionChannel points) = particleCount * 3
   \<and> length (normalized colorChannel points) = particleCount * 3
   \<and> fst (stageEffect env stage k0 st)
        = installTargets (fst (getPointsForStage env stage k0)) st
   \<and> particleCount = 4000 \<and> PARTICLE_COUNT = 4000"
proof -
  have t: "length (fst (generateTextPoints env t c k0))
        = (if hasContext env
              \<and> scanPixels (imageData env (if length t > 2 then 30 else 80) t) \<noteq> []
           then PARTICLE_COUNT else 0)" for t c
    by (rule generateTextPoints_length)
  have tree: "length (fst (generateTreePoints env k0)) = PARTICLE_COUNT"
    by (rule length_generateTreePoints)
  have "getPointsForStage env stage k0 = generateTreePoints env k0
      \<or> getPointsForStage env stage k0
          = generateTextPoints env (utf16 stage) (0.4, 0.6, 1.0) k0
      \<or> getPointsForStage env stage k0 = generateTextPoints env HAPPY_TEXT (1, 0.8, 0.2) k0"
    unfolding getPointsForStage_def by (simp only: split: if_split) blast
  then have a: "length (fst (getPointsForStage env stage k0)) = 0
      \<or> length (fst (getPointsForStage env stage k0)) = PARTICLE_COUNT"
  proof (elim disjE)
    assume "getPointsForStage env stage k0 = generateTreePoints env k0"
    with tree show ?thesis by simp
  next
    assume "getPointsForStage env stage k0
      = generateTextPoints env (utf16 stage) (0.4, 0.6, 1.0) k0"
    with t [of "utf16 stage" "(0.4, 0.6, 1.0)"] show ?thesis by simp
  next
    assume "getPointsForStage env stage k0 = generateTextPoints env HAPPY_TEXT (1, 0.8, 0.2) k0"
    with t [of HAPPY_TEXT "(1, 0.8, 0.2)"] show ?thesis by simp
  qed
  have b: "stage \<notin> set [''5'', ''4'', ''3'', ''2'', ''1'', ''HAPPY_NEW_YEAR'']
        \<longrightarrow> length (fst (getPointsForStage env stage k0)) = PARTICLE_COUNT"
    unfolding getPointsForStage_def using tree by simp
  have c: "stage \<in> set [''5'', ''4'', ''3'', ''2'', ''1'']
        \<longrightarrow> getPointsForStage env stage k0
              = generateTextPoints env (utf16 stage) (0.4, 0.6, 1.0) k0"
    unfolding getPointsForStage_def by auto
  have d: "getPointsForStage env ''HAPPY_NEW_YEAR'' k0
        = generateTextPoints env HAPPY_TEXT (1, 0.8, 0.2) k0"
    unfolding getPointsForStage_def by simp
  have e: "deref (installTargets points st) (targetPositionsRef (installTargets points st))
        = Some (normalized positionChannel points)"
    "deref (installTargets points st) (targetColorsRef (installTargets points st))
        = Some (normalized colorChannel points)"
    by (simp_all add: deref_def installTargets_refs installTargets_heap)
  have f: "fst (stageEffect env stage k0 st)
        = installTargets (fst (getPointsForStage env stage k0)) st"
    by (simp add: stageEffect_eq)
  have g: "length (normalized positionChannel points) = particleCount * 3"
    "length (normalized colorChannel points) = particleCount * 3"
    "particleCount = 4000" "PARTICLE_COUNT = 4000"
    by (simp_all add: length_normalized particleCount_def PARTICLE_COUNT_def)
  show ?thesis
    using a b c d e f g t [of "text" colorBase]
    by blast
qed

text \<open>
  The hypotheses of C1 at the stage \<open>TREE\<close>, at an unknown stage, and at stage \<open>3\<close>
  with fewer candidates than the capacity (one) and with more (5000).
\<close>

theorem cloud_sizes_witness:
  "length (fst (getPointsForStage blankBrowser ''TREE'' 0)) = PARTICLE_COUNT
   \<and> length (fst (getPointsForStage blankBrowser ''STAR'' 0)) = PARTICLE_COUNT
   \<and> length (scanPixels (imageData cornerBrowser 80 (utf16 ''3''))) = 1
   \<and> length (fst (getPointsForStage cornerBrowser ''3'' 0)) = PARTICLE_COUNT
   \<and> length (scanPixels (imageData whiteBrowser 80 (utf16 ''3''))) = 5000
   \<and> length (fst (getPointsForStage whiteBrowser ''3'' 0)) = PARTICLE_COUNT"
proof -
  have tree: "''TREE'' \<notin> set [''5'', ''4'', ''3'', ''2'', ''1'', ''HAPPY_NEW_YEAR'']"
    and star: "''STAR'' \<notin> set [''5'', ''4'', ''3'', ''2'', ''1'', ''HAPPY_NEW_YEAR'']"
    and three: "''3'' \<in> set [''5'', ''4'', ''3'', ''2'', ''1'']"
    by simp_all
  have f: "(if length (utf16 ''3'') > 2 then 30 else 80) = (80::nat)"
    by (simp add: utf16_def)
  have corner: "scanPixels (imageData cornerBrowser 80 (utf16 ''3''))
      = [\<lparr>pixel_x = 0, pixel_y = 0\<rparr>]"
    by (rule scanPixels_corner) (simp_all add: cornerBrowser_def cornerImage_def)
  have white: "length (scanPixels (imageData whiteBrowser 80 (utf16 ''3''))) = 5000"
    by (rule scanPixels_white_length) (simp add: whiteBrowser_def whiteImage_def)
  have ctx: "hasContext cornerBrowser" "hasContext whiteBrowser"
    by (simp_all add: cornerBrowser_def whiteBrowser_def)
  from cloud_sizes [of blankBrowser "''TREE''" 0] tree
  have 1: "length (fst (getPointsForStage blankBrowser ''TREE'' 0)) = PARTICLE_COUNT"
    by blast
  from cloud_sizes [of blankBrowser "''STAR''" 0] star
  have 2: "length (fst (getPointsForStage blankBrowser ''STAR'' 0)) = PARTICLE_COUNT"
    by blast
  from cloud_sizes [of cornerBrowser "''3''" 0 "utf16 ''3''" "(0.4, 0.6, 1.0)"] three
  have "length (fst (getPointsForStage cornerBrowser ''3'' 0))
      = (if hasContext cornerBrowser
            \<and> scanPixels (imageData cornerBrowser
                  (if length (utf16 ''3'') > 2 then 30 else 80) (utf16 ''3'')) \<noteq> []
         then PARTICLE_COUNT else 0)"
    by simp
  then have 3: "length (fst (getPointsForStage cornerBrowser ''3'' 0)) = PARTICLE_COUNT"
    unfolding f using corner ctx by simp
  from cloud_sizes [of whiteBrowser "''3''" 0 "utf16 ''3''" "(0.4, 0.6, 1.0)"] three
  have "length (fst (getPointsForStage whiteBrowser ''3'' 0))
      = (if hasContext whiteBrowser
            \<and> scanPixels (imageData whiteBrowser
                  (if length (utf16 ''3'') > 2 then 30 else 80) (utf16 ''3'')) \<noteq> []
         then PARTICLE_COUNT else 0)"
    by simp
  then have 4: "length (fst (getPointsForStage whiteBrowser ''3'' 0)) = PARTICLE_COUNT"
    unfolding f using white ctx by auto
  show ?thesis
    using 1 2 3 4 corner white by simp
qed

text \<open>
  C1 as stated fails: on a canvas where the text leaves no pixel, stage \<open>5\<close> yields
  a cloud of length 0, not 4000.
\<close>

theorem empty_text_cloud_counterexample:
  "length (fst (getPointsForStage blankBrowser ''5'' 0)) = 0 \<and> PARTICLE_COUNT = 4000"
proof -
  have "scanPixels (blankImage n t) = []" for n t
    by (rule scanPixels_dark) (simp add: blankImage_def)
  then show ?thesis
    by (simp add: getPointsForStage_def generateTextPoints_def blankBrowser_def
        PARTICLE_COUNT_def Let_def)
qed

text \<open>
  C5. When the scan finds no foreground pixel, the text generator returns the empty
  cloud (the model has no error branch: the function returns this value), and the
  target buffers built from it hold \<open>particleCount * 3\<close> zeros each: every particle at
  the origin, every colour channel 0.
\<close>

theorem empty_text_cloud_is_dark:
  assumes "scanPixels (imageData env (if length text > 2 then 30 else 80) text) = []"
  shows "generateTextPoints env text colorBase k0 = ([], k0)
       \<and> deref (installTargets (fst (generateTextPoints env text colorBase k0)) st)
           (targetPositionsRef (installTargets (fst (generateTextPoints env text colorBase k0)) st))
           = Some (replicate (particleCount * 3) 0)
       \<and> deref (installTargets (fst (generateTextPoints env text colorBase k0)) st)
           (targetColorsRef (installTargets (fst (generateTextPoints env text colorBase k0)) st))
           = Some (replicate (particleCount * 3) 0)
       \<and> particleCount = 4000"
proof -
  have g: "generateTextPoints env text colorBase k0 = ([], k0)"
    using assms by (simp add: generateTextPoints_def Let_def)
  show ?thesis
    unfolding g
    by (simp add: deref_def installTargets_refs installTargets_heap normalized_Nil
        particleCount_def)
qed

text \<open>
  The hypothesis of C5 at stage \<open>5\<close> on the blank canvas, from the empty store.
\<close>

theorem empty_text_cloud_is_dark_witness:
  "generateTextPoints blankBrowser (utf16 ''5'') (0.4, 0.6, 1.0) 0 = ([], 0)
   \<and> deref (installTargets (fst (generateTextPoints blankBrowser (utf16 ''5'') (0.4, 0.6, 1.0) 0))
         emptyStore)
       (targetColorsRef
         (installTargets (fst (generateTextPoints blankBrowser (utf16 ''5'') (0.4, 0.6, 1.0) 0))
           emptyStore))
       = Some (replicate (particleCount * 3) 0)"
proof -
  have "scanPixels (imageData blankBrowser (if length (utf16 ''5'') > 2 then 30 else 80)
      (utf16 ''5'')) = []"
    by (rule scanPixels_dark) (simp add: blankBrowser_def blankImage_def)
  from empty_text_cloud_is_dark [OF this, of "(0.4, 0.6, 1.0)" 0 emptyStore]
  show ?thesis by blast
qed

section \<open>Claims on the particle scene\<close>

text \<open>
  C9. The stage effect allocates two new arrays, writes only into them, and assigns the
  two refs once all writes are done. At every point of the effect (after any number
  \<open>m\<close> of element writes) and at its end, every array \<open>a\<close> that existed before is
  unchanged, and during the writes both refs still hold their old values. So the
  buffers that an earlier stage installed (for the point list \<open>old\<close>) are read complete
  through the refs while the next stage is being built, and through the old references
  after the swap; the refs then point at the two new arrays, which hold the complete
  buffers of the new stage.
\<close>

theorem target_swap_keeps_old_buffers:
  "(a < nextAddr st \<longrightarrow>
      heap (stageEffectPrefix m points st) a = heap st a
      \<and> heap (installTargets points st) a = heap st a
      \<and> a \<noteq> nextAddr st \<and> a \<noteq> nextAddr st + 1)
       \<and> targetPositionsRef (stageEffectPrefix m points st) = targetPositionsRef st
       \<and> targetColorsRef (stageEffectPrefix m points st) = targetColorsRef st
       \<and> installTargets points st =
           (stageEffectPrefix (length (stageWrites (nextAddr st) (nextAddr st + 1) points))
              points st)
             \<lparr>targetPositionsRef := Some (nextAddr st),
              targetColorsRef := Some (nextAddr st + 1)\<rparr>
       \<and> targetPositionsRef (installTargets points st) = Some (nextAddr st)
       \<and> targetColorsRef (installTargets points st) = Some (nextAddr st + 1)
       \<and> heap (installTargets points st) (nextAddr st) = Some (normalized positionChannel points)
       \<and> heap (installTargets points st) (nextAddr st + 1)
           = Some (normalized colorChannel points)
       \<and> deref (stageEffectPrefix m points (installTargets old st))
             (targetPositionsRef (stageEffectPrefix m points (installTargets old st)))
           = Some (normalized positionChannel old)
       \<and> deref (stageEffectPrefix m points (installTargets old st))
             (targetColorsRef (stageEffectPrefix m points (installTargets old st)))
           = Some (normalized colorChannel old)
       \<and> deref (installTargets points (installTargets old st))
             (targetPositionsRef (installTargets old st))
           = Some (normalized positionChannel old)
       \<and> deref (installTargets points (installTargets old st))
             (targetColorsRef (installTargets old st))
           = Some (normalized colorChannel old)"
proof -
  let ?st1 = "installTargets old st"
  have n1: "nextAddr ?st1 = nextAddr st + 2"
    by (rule installTargets_refs)
  have r1: "targetPositionsRef ?st1 = Some (nextAddr st)"
    "targetColorsRef ?st1 = Some (nextAddr st + 1)"
    by (rule installTargets_refs)+
  have h1: "heap ?st1 (nextAddr st) = Some (normalized positionChannel old)"
    "heap ?st1 (nextAddr st + 1) = Some (normalized colorChannel old)"
    by (simp_all add: installTargets_heap)
  have during: "heap (stageEffectPrefix m points ?st1) (nextAddr st) = heap ?st1 (nextAddr st)"
    "heap (stageEffectPrefix m points ?st1) (nextAddr st + 1) = heap ?st1 (nextAddr st + 1)"
    by (rule stageEffectPrefix_old; simp add: n1)+
  have after: "heap (installTargets points ?st1) (nextAddr st) = heap ?st1 (nextAddr st)"
    "heap (installTargets points ?st1) (nextAddr st + 1) = heap ?st1 (nextAddr st + 1)"
    by (simp_all add: installTargets_heap [of points ?st1] n1)
  have "deref (stageEffectPrefix m points ?st1)
          (targetPositionsRef (stageEffectPrefix m points ?st1))
        = Some (normalized positionChannel old)"
    and "deref (stageEffectPrefix m points ?st1)
          (targetColorsRef (stageEffectPrefix m points ?st1))
        = Some (normalized colorChannel old)"
    and "deref (installTargets points ?st1) (targetPositionsRef ?st1)
        = Some (normalized positionChannel old)"
    and "deref (installTargets points ?st1) (targetColorsRef ?st1)
        = Some (normalized colorChannel old)"
    using r1 during after h1 by (simp_all add: deref_def stageEffectPrefix_frame)
  moreover have "heap (stageEffectPrefix m points st) a = heap st a
      \<and> heap (installTargets points st) a = heap st a
      \<and> a \<noteq> nextAddr st \<and> a \<noteq> nextAddr st + 1"
    if "a < nextAddr st"
    using that by (simp add: stageEffectPrefix_old installTargets_heap)
  moreover have "targetPositionsRef (stageEffectPrefix m points st) = targetPositionsRef st"
    and "targetColorsRef (stageEffectPrefix m points st) = targetColorsRef st"
    by (rule stageEffectPrefix_frame)+
  moreover have "targetPositionsRef (installTargets points st) = Some (nextAddr st)"
    and "targetColorsRef (installTargets points st) = Some (nextAddr st + 1)"
    by (rule installTargets_refs)+
  moreover have "heap (installTargets points st) (nextAddr st)
      = Some (normalized positionChannel points)"
    and "heap (installTargets points st) (nextAddr st + 1)
      = Some (normalized colorChannel points)"
    by (simp_all add: installTargets_heap)
  moreover note installTargets_is_last_prefix [of points st]
  ultimately show ?thesis
    by blast
qed

text \<open>
  The hypothesis of C9 for the array at address 0, installed by a first stage effect
  with an empty cloud, while and after a second stage effect installs one point.
\<close>

theorem target_swap_keeps_old_buffers_witness:
  "heap (stageEffectPrefix 3 [samplePoint] (installTargets [] emptyStore)) 0
     = Some (replicate (particleCount * 3) 0)
   \<and> heap (installTargets [samplePoint] (installTargets [] emptyStore)) 0
     = Some (replicate (particleCount * 3) 0)
   \<and> targetPositionsRef (installTargets [samplePoint] (installTargets [] emptyStore)) = Some 2"
proof -
  let ?st = "installTargets [] emptyStore"
  have n: "0 < nextAddr ?st"
    by (simp add: installTargets_refs)
  have h: "heap ?st 0 = Some (replicate (particleCount * 3) 0)"
    by (simp add: installTargets_heap normalized_Nil emptyStore_def)
  have n2: "nextAddr ?st = 2"
    by (simp add: installTargets_refs emptyStore_def)
  from target_swap_keeps_old_buffers [of 0 ?st 3 "[samplePoint]" "[]"] n
  have "heap (stageEffectPrefix 3 [samplePoint] ?st) 0 = heap ?st 0"
    and "heap (installTargets [samplePoint] ?st) 0 = heap ?st 0"
    and "targetPositionsRef (installTargets [samplePoint] ?st) = Some (nextAddr ?st)"
    by blast+
  then show ?thesis
    using h n2 by simp
qed

text \<open>
  C10. If every channel of the live colour buffer lies in \<open>[0, 1]\<close> and every channel
  of the target colour buffer (when the ref holds one) lies in \<open>[0, 1]\<close>, then after a
  call of \<open>animate\<close>, and after any number of frames, every channel of the live colour
  buffer still lies in \<open>[0, 1]\<close>. The new value of colour channel \<open>j\<close> is
  \<open>old + (target - old) * 0.08\<close> with the plain target: no floating offset enters it.
  The floating offset enters the position channels only, through the effective target.
  While a target ref is \<^verbatim>\<open>null\<close> the frame changes nothing.
\<close>

theorem colours_stay_in_unit_interval:
  assumes "length colors = particleCount * 3" and "set colors \<subseteq> {0..1}"
    and "\<And>tc. deref st (targetColorsRef st) = Some tc \<Longrightarrow>
           length tc = particleCount * 3 \<and> set tc \<subseteq> {0..1}"
  shows "set (snd (animate time randoms st (positions, colors))) \<subseteq> {0..1}
       \<and> length (snd (animate time randoms st (positions, colors))) = particleCount * 3
       \<and> set (snd (animateFrames clock randoms st (positions, colors) n)) \<subseteq> {0..1}
       \<and> (\<forall>targets tc j. deref st (targetPositionsRef st) = Some targets
              \<and> deref st (targetColorsRef st) = Some tc \<and> j < particleCount * 3
            \<longrightarrow> snd (animate time randoms st (positions, colors)) ! j
                  = colors ! j + (tc ! j - colors ! j) * 0.08)
       \<and> (\<forall>targets tc j. deref st (targetPositionsRef st) = Some targets
              \<and> deref st (targetColorsRef st) = Some tc \<and> j < particleCount * 3
              \<and> j < length positions
            \<longrightarrow> fst (animate time randoms st (positions, colors)) ! j
                  = positions ! j
                    + (effectiveTarget time randoms targets j - positions ! j) * 0.08)
       \<and> (deref st (targetPositionsRef st) = None \<or> deref st (targetColorsRef st) = None
            \<longrightarrow> animate time randoms st (positions, colors) = (positions, colors))"
proof -
  have one: "set (snd (animate time randoms st (positions, colors))) \<subseteq> {0..1}"
    by (rule animate_unit [OF assms])
  have len: "length (snd (animate time randoms st (positions, colors))) = particleCount * 3"
    using animate_length [of time randoms st "(positions, colors)"] assms(1) by simp
  have frames: "set (snd (animateFrames clock randoms st (positions, colors) n)) \<subseteq> {0..1}"
  proof (induction n)
    case 0
    then show ?case using assms(2) by simp
  next
    case (Suc n)
    let ?b = "animateFrames clock randoms st (positions, colors) n"
    have l: "length (snd ?b) = particleCount * 3"
      using animateFrames_length [of clock randoms st "(positions, colors)" n] assms(1)
      by simp
    from animate_unit [where colors = "snd ?b" and st = st and time = "clock n"
        and randoms = randoms and positions = "fst ?b", OF l Suc.IH assms(3)]
    show ?case by simp
  qed
  have step: "snd (animate time randoms st (positions, colors)) ! j
      = colors ! j + (tc ! j - colors ! j) * 0.08"
    if "deref st (targetPositionsRef st) = Some targets"
      and "deref st (targetColorsRef st) = Some tc" and "j < particleCount * 3"
    for targets tc j
    using animate_colors [OF that, of "(positions, colors)"] assms(1) that(3)
    by (simp add: lerpStep_def lerpFactor_def)
  have null: "animate time randoms st (positions, colors) = (positions, colors)"
    if "deref st (targetPositionsRef st) = None \<or> deref st (targetColorsRef st) = None"
    by (rule animate_null [OF that])
  have pstep: "fst (animate time randoms st (positions, colors)) ! j
      = positions ! j + (effectiveTarget time randoms targets j - positions ! j) * 0.08"
    if "deref st (targetPositionsRef st) = Some targets"
      and "deref st (targetColorsRef st) = Some tc" and "j < particleCount * 3"
      and "j < length positions"
    for targets tc j
    using animate_positions [OF that(1,2,3), of "(positions, colors)"] that(4)
    by (simp add: lerpStep_def lerpFactor_def)
  show ?thesis
    using one len frames step pstep null by blast
qed

text \<open>
  The hypotheses of C10 for a live colour buffer of ones and the targets of one grey
  point: the first channel moves from 1 to 0.96.
\<close>

theorem colours_stay_in_unit_interval_witness:
  "set (snd (animate 0 zeroRandoms (installTargets [samplePoint] emptyStore)
          (zeroBuffer, onesBuffer))) \<subseteq> {0..1}
   \<and> snd (animate 0 zeroRandoms (installTargets [samplePoint] emptyStore)
          (zeroBuffer, onesBuffer)) ! 0 = 0.96"
proof -
  let ?st = "installTargets [samplePoint] emptyStore"
  let ?tc = "normalized colorChannel [samplePoint]"
  have dp: "deref ?st (targetPositionsRef ?st) = Some (normalized positionChannel [samplePoint])"
    and dc: "deref ?st (targetColorsRef ?st) = Some ?tc"
    by (simp_all add: deref_def installTargets_refs installTargets_heap)
  have l: "length onesBuffer = particleCount * 3"
    by (simp add: onesBuffer_def)
  have o: "set onesBuffer \<subseteq> {0..1}"
    by (auto simp add: onesBuffer_def)
  have "set ?tc \<subseteq> {0..1}"
  proof
    fix v assume "v \<in> set ?tc"
    then obtain j where "j < particleCount * 3" "v = ?tc ! j"
      by (auto simp add: in_set_conv_nth length_normalized)
    then show "v \<in> {0..1}"
      by (simp add: normalized_nth colorChannel_def samplePoint_def createPoint_def)
  qed
  then have t: "\<And>tc. deref ?st (targetColorsRef ?st) = Some tc \<Longrightarrow>
           length tc = particleCount * 3 \<and> set tc \<subseteq> {0..1}"
    using dc by (simp add: length_normalized)
  have j: "(0::nat) < particleCount * 3"
    by (simp add: particleCount_def)
  have v: "?tc ! 0 = 0.5" "onesBuffer ! 0 = 1"
    using j by (simp_all add: normalized_nth colorChannel_def samplePoint_def createPoint_def
        onesBuffer_def)
  from colours_stay_in_unit_interval [where colors = onesBuffer and st = "?st" and time = 0
      and randoms = zeroRandoms and positions = zeroBuffer, OF l o t]
  have "set (snd (animate 0 zeroRandoms ?st (zeroBuffer, onesBuffer))) \<subseteq> {0..1}"
    and "snd (animate 0 zeroRandoms ?st (zeroBuffer, onesBuffer)) ! 0
      = onesBuffer ! 0 + (?tc ! 0 - onesBuffer ! 0) * 0.08"
    using dp dc j by blast+
  then show ?thesis
    using v by simp
qed

text \<open>
  C3, as the code has it. A channel without floating offset is a colour channel or the
  z channel of a position (index \<open>k\<close> with \<open>k mod 3 = 2\<close>). Let its live value \<open>live\<close>
  and its target \<open>target\<close> be binary32 numbers of absolute value at most \<open>M\<close>, where
  \<open>M\<close> is at least the least normal binary32 number and below \<open>2 ^ 128\<close>. One frame
  sets the channel to \<open>lerpStepFloat32 live target\<close>, the value of
  \<open>live + (target - live) * 0.08\<close> with every operation rounded. The new value is a
  binary32 number between \<open>live\<close> and \<open>target\<close>, at most \<open>roundingError M\<close> away
  from the exact value. So a frame never takes the channel farther from its target, it
  multiplies the distance by 0.92 up to \<open>roundingError M\<close>, it brings the channel
  strictly closer as long as the distance exceeds \<open>stallRadius M\<close>, and it leaves a
  channel that is on its target there. With the target buffers unchanged the distance
  after \<open>n\<close> frames is at most \<open>0.92 ^ n\<close> times the initial distance \<open>d\<close> plus
  \<open>stallRadius M\<close>, and for every \<open>eps\<close> above \<open>stallRadius M\<close> it is below \<open>eps\<close>
  after \<open>frameBound d (eps - stallRadius M)\<close> frames and ever after.
\<close>

theorem frames_converge_up_to_rounding:
  assumes "fround live = live" and "fround target = target"
    and "\<bar>live\<bar> \<le> M" and "\<bar>target\<bar> \<le> M"
    and "2 powi (- 126) \<le> M" and "M < 2 ^ 128"
    and "deref st (targetPositionsRef st) = Some targets"
    and "deref st (targetColorsRef st) = Some targetCols"
    and "j < particleCount * 3" and "j < length colors"
    and "k < particleCount * 3" and "k < length positions" and "k mod 3 = 2"
  shows "min live target \<le> lerpStepFloat32 live target
       \<and> lerpStepFloat32 live target \<le> max live target
       \<and> fround (lerpStepFloat32 live target) = lerpStepFloat32 live target
       \<and> \<bar>lerpStepFloat32 live target - (live + (target - live) * 0.08)\<bar> \<le> roundingError M
       \<and> \<bar>lerpStepFloat32 live target - target\<bar> \<le> 0.92 * \<bar>live - target\<bar> + roundingError M
       \<and> \<bar>lerpStepFloat32 live target - target\<bar> \<le> \<bar>live - target\<bar>
       \<and> (stallRadius M < \<bar>live - target\<bar> \<longrightarrow>
            \<bar>lerpStepFloat32 live target - target\<bar> < \<bar>live - target\<bar>)
       \<and> (live = target \<longrightarrow> lerpStepFloat32 live target = target)
       \<and> \<bar>((\<lambda>v. lerpStepFloat32 v target) ^^ n) live - target\<bar>
           \<le> 0.92 ^ n * \<bar>live - target\<bar> + stallRadius M
       \<and> \<bar>((\<lambda>v. lerpStepFloat32 v target) ^^ Suc n) live - target\<bar>
           \<le> \<bar>((\<lambda>v. lerpStepFloat32 v target) ^^ n) live - target\<bar>
       \<and> (stallRadius M < \<bar>((\<lambda>v. lerpStepFloat32 v target) ^^ n) live - target\<bar> \<longrightarrow>
            \<bar>((\<lambda>v. lerpStepFloat32 v target) ^^ Suc n) live - target\<bar>
            < \<bar>((\<lambda>v. lerpStepFloat32 v target) ^^ n) live - target\<bar>)
       \<and> (stallRadius M < eps \<and> frameBound \<bar>live - target\<bar> (eps - stallRadius M) \<le> n \<longrightarrow>
            \<bar>((\<lambda>v. lerpStepFloat32 v target) ^^ n) live - target\<bar> < eps)
       \<and> snd (animateFramesFloat32 lib clock randoms st (positions, colors) n) ! j
           = ((\<lambda>v. lerpStepFloat32 v (targetCols ! j)) ^^ n) (colors ! j)
       \<and> fst (animateFramesFloat32 lib clock randoms st (positions, colors) n) ! k
           = ((\<lambda>v. lerpStepFloat32 v (targets ! k)) ^^ n) (positions ! k)
       \<and> roundingError M = M * (1 / 2 ^ 24 + 1 / 2 ^ 52)
       \<and> stallRadius M = 25 / 2 * roundingError M
       \<and> frameBound d eps = nat \<lceil>23 * d / (2 * eps)\<rceil>"
proof -
  note fl = assms(1,2,3,4,5)
  let ?it = "\<lambda>n. ((\<lambda>v. lerpStepFloat32 v target) ^^ n) live"
  from lerpStepFloat32_step [OF fl]
  have s1: "min live target \<le> lerpStepFloat32 live target"
    and s2: "lerpStepFloat32 live target \<le> max live target"
    and s3: "\<bar>lerpStepFloat32 live target - (live + (target - live) * 0.08)\<bar>
        \<le> roundingError M"
    by blast+
  have s4: "fround (lerpStepFloat32 live target) = lerpStepFloat32 live target"
    by (rule lerpStepFloat32_float)
  have s5: "\<bar>lerpStepFloat32 live target - target\<bar>
      \<le> 0.92 * \<bar>live - target\<bar> + roundingError M"
    by (rule lerpStepFloat32_distance(1) [OF fl])
  have s6: "\<bar>lerpStepFloat32 live target - target\<bar> \<le> \<bar>live - target\<bar>"
    by (rule lerpStepFloat32_distance(2) [OF fl])
  have s7: "\<bar>lerpStepFloat32 live target - target\<bar> < \<bar>live - target\<bar>"
    if "stallRadius M < \<bar>live - target\<bar>"
    by (rule lerpStepFloat32_strict [OF fl that])
  have s8: "lerpStepFloat32 live target = target" if "live = target"
    using that lerpStepFloat32_fix [OF assms(1)] by simp
  from frames_invariant [OF fl, of n]
  have fv: "fround (?it n) = ?it n" and bv: "\<bar>?it n\<bar> \<le> M"
    by blast+
  have next_frame: "?it (Suc n) = lerpStepFloat32 (?it n) target"
    by simp
  have i1: "\<bar>?it n - target\<bar> \<le> 0.92 ^ n * \<bar>live - target\<bar> + stallRadius M"
    by (rule frames_bound [OF fl])
  have i2: "\<bar>?it (Suc n) - target\<bar> \<le> \<bar>?it n - target\<bar>"
    unfolding next_frame by (rule lerpStepFloat32_distance(2) [OF fv assms(2) bv assms(4,5)])
  have i3: "\<bar>?it (Suc n) - target\<bar> < \<bar>?it n - target\<bar>"
    if "stallRadius M < \<bar>?it n - target\<bar>"
    unfolding next_frame by (rule lerpStepFloat32_strict [OF fv assms(2) bv assms(4,5) that])
  have i4: "\<bar>?it n - target\<bar> < eps"
    if "stallRadius M < eps \<and> frameBound \<bar>live - target\<bar> (eps - stallRadius M) \<le> n"
    using that frames_below [OF fl, of eps n] by blast
  have c: "snd (animateFramesFloat32 lib clock randoms st (positions, colors) n) ! j
      = ((\<lambda>v. lerpStepFloat32 v (targetCols ! j)) ^^ n) (colors ! j)"
    using animateFramesFloat32_colors [OF assms(7,8,9), of "(positions, colors)" lib clock
        randoms n] assms(10)
    by simp
  have p: "fst (animateFramesFloat32 lib clock randoms st (positions, colors) n) ! k
      = ((\<lambda>v. lerpStepFloat32 v (targets ! k)) ^^ n) (positions ! k)"
    using animateFramesFloat32_z [OF assms(7,8,11) _ assms(13), of "(positions, colors)" lib
        clock randoms n] assms(12)
    by simp
  have e1: "roundingError M = M * (1 / 2 ^ 24 + 1 / 2 ^ 52)"
    by (rule roundingError_def)
  have e2: "stallRadius M = 25 / 2 * roundingError M"
    by (rule stallRadius_def)
  have e3: "frameBound d eps = nat \<lceil>23 * d / (2 * eps)\<rceil>"
    by (rule frameBound_def)
  show ?thesis
    apply (intro conjI impI)
    apply (rule s1 s2 s3 s4 s5 s6 i1 i2 c p e1 e2 e3 | erule s7 s8 i3 i4)+
    done
qed

text \<open>
  The hypotheses of C3 for live buffers of ones and targets of zeros, with \<open>M = 1\<close>:
  the first frame takes a channel from 1 to 0.92 up to \<open>roundingError 1\<close>, and after
  24 frames the first colour channel and the z channel of the first particle are
  closer to 0 than \<open>1 / 2\<close>.
\<close>

theorem frames_converge_up_to_rounding_witness:
  "\<bar>snd (animateFramesFloat32 exactMath frameClock zeroRandoms (installTargets [] emptyStore)
          (onesBuffer, onesBuffer) 24) ! 0 - 0\<bar> < 1 / 2
   \<and> \<bar>fst (animateFramesFloat32 exactMath frameClock zeroRandoms (installTargets [] emptyStore)
          (onesBuffer, onesBuffer) 24) ! 2 - 0\<bar> < 1 / 2
   \<and> \<bar>lerpStepFloat32 1 0 - 0.92\<bar> \<le> roundingError 1
   \<and> lerpStepFloat32 1 0 \<le> 1"
proof -
  let ?st = "installTargets [] emptyStore"
  let ?z = "replicate (particleCount * 3) (0::real)"
  let ?it = "((\<lambda>v. lerpStepFloat32 v 0) ^^ 24) 1"
  have dp: "deref ?st (targetPositionsRef ?st) = Some ?z"
    and dc: "deref ?st (targetColorsRef ?st) = Some ?z"
    by (simp_all add: deref_def installTargets_refs installTargets_heap normalized_Nil)
  have j: "(0::nat) < particleCount * 3" "0 < length onesBuffer"
    and k: "(2::nat) < particleCount * 3" "2 < length onesBuffer" "(2::nat) mod 3 = 2"
    by (simp_all add: particleCount_def onesBuffer_def)
  have b: "\<bar>1::real\<bar> \<le> 1" "\<bar>0::real\<bar> \<le> 1" "2 powi (- 126) \<le> (1::real)" "(1::real) < 2 ^ 128"
    by (simp_all add: power_int_minus)
  have v: "onesBuffer ! 0 = 1" "onesBuffer ! 2 = 1" "?z ! 0 = 0" "?z ! 2 = 0"
    by (simp_all add: onesBuffer_def particleCount_def)
  have r: "stallRadius 1 < 1 / 2"
    by (simp add: stallRadius_def roundingError_def)
  have "frameBound \<bar>1 - 0\<bar> (1 / 2 - stallRadius 1) \<le> 24"
    by (simp add: frameBound_def stallRadius_def roundingError_def ceiling_le_iff)
  with r have pre: "stallRadius 1 < 1 / 2 \<and> frameBound \<bar>1 - 0\<bar> (1 / 2 - stallRadius 1) \<le> 24"
    by simp
  note inst = frames_converge_up_to_rounding [OF fround_examples(2) fround_examples(1) b dp dc j k,
      where lib = exactMath and clock = frameClock and randoms = zeroRandoms and n = 24
        and eps = "1 / 2"]
  from inst have "stallRadius 1 < 1 / 2 \<and> frameBound \<bar>1 - 0\<bar> (1 / 2 - stallRadius 1) \<le> 24
      \<longrightarrow> \<bar>?it - 0\<bar> < 1 / 2"
    by blast
  with pre have it: "\<bar>?it - 0\<bar> < 1 / 2"
    by blast
  from inst
  have "snd (animateFramesFloat32 exactMath frameClock zeroRandoms ?st (onesBuffer, onesBuffer) 24)
        ! 0 = ((\<lambda>v. lerpStepFloat32 v (?z ! 0)) ^^ 24) (onesBuffer ! 0)"
    and "fst (animateFramesFloat32 exactMath frameClock zeroRandoms ?st (onesBuffer, onesBuffer) 24)
        ! 2 = ((\<lambda>v. lerpStepFloat32 v (?z ! 2)) ^^ 24) (onesBuffer ! 2)"
    and "\<bar>lerpStepFloat32 1 0 - (1 + (0 - 1) * 0.08)\<bar> \<le> roundingError 1"
    and "lerpStepFloat32 1 0 \<le> max 1 0"
    by blast+
  then show ?thesis
    unfolding v using it by simp
qed

text \<open>
  C3 as stated fails. The binary32 number \<open>1 / 2 + 6 / 2 ^ 24\<close> (0.5000003576278687)
  with the target \<open>1 / 2\<close> is left where it is by the update: the exact new value is
  nearer to it than to any other binary32 number. So the distance \<open>6 / 2 ^ 24\<close> does
  not decrease in this frame nor in any later one, and it never falls below
  \<open>1 / 10 ^ 7\<close>. This is where the channel that starts at 1 with target \<open>1 / 2\<close>
  comes to rest. The first colour channel with the targets of one grey point is such a
  channel.
\<close>

theorem frame_stalls_counterexample:
  "fround (1 / 2 + 6 / 2 ^ 24) = 1 / 2 + 6 / 2 ^ 24
   \<and> fround (1 / 2) = 1 / 2
   \<and> lerpStepFloat32 (1 / 2 + 6 / 2 ^ 24) (1 / 2) = 1 / 2 + 6 / 2 ^ 24
   \<and> \<not> \<bar>lerpStepFloat32 (1 / 2 + 6 / 2 ^ 24) (1 / 2) - 1 / 2\<bar> < \<bar>1 / 2 + 6 / 2 ^ 24 - 1 / 2\<bar>
   \<and> ((\<lambda>v. lerpStepFloat32 v (1 / 2)) ^^ 1000) (1 / 2 + 6 / 2 ^ 24) = 1 / 2 + 6 / 2 ^ 24
   \<and> \<not> \<bar>((\<lambda>v. lerpStepFloat32 v (1 / 2)) ^^ 1000) (1 / 2 + 6 / 2 ^ 24) - 1 / 2\<bar> < 1 / 10 ^ 7
   \<and> deref (installTargets [samplePoint] emptyStore)
         (targetColorsRef (installTargets [samplePoint] emptyStore))
       = Some (normalized colorChannel [samplePoint])
   \<and> normalized colorChannel [samplePoint] ! 0 = 1 / 2
   \<and> stalledBuffer ! 0 = 1 / 2 + 6 / 2 ^ 24
   \<and> snd (animateFloat32 exactMath 0 zeroRandoms (installTargets [samplePoint] emptyStore)
          (zeroBuffer, stalledBuffer)) ! 0 = stalledBuffer ! 0
   \<and> snd (animateFramesFloat32 exactMath frameClock zeroRandoms
          (installTargets [samplePoint] emptyStore) (zeroBuffer, stalledBuffer) 1000) ! 0
       = stalledBuffer ! 0"
proof -
  let ?st = "installTargets [samplePoint] emptyStore"
  let ?tc = "normalized colorChannel [samplePoint]"
  let ?a = "1 / 2 + 6 / 2 ^ 24 :: real"
  have dp: "deref ?st (targetPositionsRef ?st) = Some (normalized positionChannel [samplePoint])"
    and dc: "deref ?st (targetColorsRef ?st) = Some ?tc"
    by (simp_all add: deref_def installTargets_refs installTargets_heap)
  have j: "(0::nat) < particleCount * 3" "0 < length (snd (zeroBuffer, stalledBuffer))"
    by (simp_all add: particleCount_def stalledBuffer_def)
  have v: "?tc ! 0 = 1 / 2" "stalledBuffer ! 0 = ?a"
    using j(1)
    by (simp_all add: normalized_nth colorChannel_def samplePoint_def createPoint_def
        stalledBuffer_def)
  have s: "lerpStepFloat32 ?a (1 / 2) = ?a"
    by (rule lerpStepFloat32_stalled)
  have it: "((\<lambda>v. lerpStepFloat32 v (1 / 2)) ^^ 1000) ?a = ?a"
    by (rule funpow_fixed [where f = "\<lambda>v. lerpStepFloat32 v (1 / 2)"]) (rule s)
  have "snd (animateFloat32 exactMath 0 zeroRandoms ?st (zeroBuffer, stalledBuffer)) ! 0
      = lerpStepFloat32 (snd (zeroBuffer, stalledBuffer) ! 0) (?tc ! 0)"
    by (rule animateFloat32_colors [OF dp dc j])
  also have "\<dots> = lerpStepFloat32 ?a (1 / 2)"
    by (simp only: snd_conv v)
  also have "\<dots> = stalledBuffer ! 0"
    by (simp only: s v)
  finally have one: "snd (animateFloat32 exactMath 0 zeroRandoms ?st (zeroBuffer, stalledBuffer))
      ! 0 = stalledBuffer ! 0" .
  have "snd (animateFramesFloat32 exactMath frameClock zeroRandoms ?st
        (zeroBuffer, stalledBuffer) 1000) ! 0
      = ((\<lambda>v. lerpStepFloat32 v (?tc ! 0)) ^^ 1000) (snd (zeroBuffer, stalledBuffer) ! 0)"
    by (rule animateFramesFloat32_colors [OF dp dc j])
  also have "\<dots> = ((\<lambda>v. lerpStepFloat32 v (1 / 2)) ^^ 1000) ?a"
    by (simp only: snd_conv v)
  also have "\<dots> = stalledBuffer ! 0"
    by (simp only: it v)
  finally have many: "snd (animateFramesFloat32 exactMath frameClock zeroRandoms ?st
        (zeroBuffer, stalledBuffer) 1000) ! 0 = stalledBuffer ! 0" .
  have n1: "\<not> \<bar>lerpStepFloat32 ?a (1 / 2) - 1 / 2\<bar> < \<bar>?a - 1 / 2\<bar>"
    unfolding s by simp
  have n2: "\<not> \<bar>((\<lambda>v. lerpStepFloat32 v (1 / 2)) ^^ 1000) ?a - 1 / 2\<bar> < 1 / 10 ^ 7"
    unfolding it by simp
  show ?thesis
    using fround_examples(3,4) s it n1 n2 dc v one many by blast
qed

end
